theory Spec2Isabelle
  imports
    Main
    "HOL-Library.AList"
    "HOL-Library.Char_ord"
    "HOL-Library.List_Lexorder"
    "HOL-Library.Product_Lexorder"
begin

section \<open>The corpus module (corpus.py)\<close>

text \<open>
  Tokens are strings, indices and sizes are Python integers (\<open>int\<close>). A Python
  exception is a value of type \<open>error\<close>; a function that can raise returns
  \<open>error + 'a\<close>, with \<open>Inl\<close> for the exception.
\<close>

datatype error = ValueError | KeyError | TypeError | IndexError | AttributeError

subsection \<open>Python list slicing\<close>

text \<open>
  \<open>xs[i:j]\<close>: a negative bound counts from the end, and both bounds are clamped to
  the list.
\<close>

definition slice_bound :: "int \<Rightarrow> int \<Rightarrow> int" where
  "slice_bound n k = (if k < 0 then max 0 (k + n) else min k n)"

definition py_slice :: "'a list \<Rightarrow> int \<Rightarrow> int \<Rightarrow> 'a list" where
  "py_slice xs i j =
     (let n = int (length xs); lo = slice_bound n i; hi = slice_bound n j
      in take (nat (hi - lo)) (drop (nat lo) xs))"

subsection \<open>Indexer: \<open>create_simple_index_list\<close>\<close>

text \<open>
  \<open>vocab_index_dict[unknown_token]\<close> raises \<open>KeyError\<close> when the unknown token is
  \<open>None\<close> or has no entry in the dictionary (whose keys are token strings).
\<close>

definition token_index :: "(string \<rightharpoonup> int) \<Rightarrow> string option \<Rightarrow> string \<Rightarrow> error + int" where
  "token_index vocab_index_dict unknown_token token =
     (case vocab_index_dict token of
        Some current_index \<Rightarrow> Inr current_index
      | None \<Rightarrow>
          (case unknown_token of
             None \<Rightarrow> Inl KeyError
           | Some u \<Rightarrow>
               (case vocab_index_dict u of
                  None \<Rightarrow> Inl KeyError
                | Some current_index \<Rightarrow> Inr current_index)))"

fun create_simple_index_list ::
  "string list \<Rightarrow> (string \<rightharpoonup> int) \<Rightarrow> string option \<Rightarrow> error + int list" where
  "create_simple_index_list [] vocab_index_dict unknown_token = Inr []"
| "create_simple_index_list (token # flattened_list) vocab_index_dict unknown_token =
     (case token_index vocab_index_dict unknown_token token of
        Inl e \<Rightarrow> Inl e
      | Inr current_index \<Rightarrow>
          (case create_simple_index_list flattened_list vocab_index_dict unknown_token of
             Inl e \<Rightarrow> Inl e
           | Inr index_list \<Rightarrow> Inr (current_index # index_list)))"

subsection \<open>WindowExpander: \<open>create_windowed_index_list\<close>\<close>

text \<open>
  The pairs appended to \<open>x\<close> and \<open>y\<close> at position \<open>i\<close> and offset \<open>j\<close>. The two
  lists are always appended to together, so one list of pairs stands for both. Every
  read is in range by the guard before it, and no index is negative.
\<close>

definition window_step :: "'a list \<Rightarrow> int \<Rightarrow> string \<Rightarrow> nat \<Rightarrow> nat \<Rightarrow> ('a \<times> 'a) list" where
  "window_step padded_index_list window_size direction i j =
     (if direction = ''both'' then
        (if j \<le> i then [(padded_index_list ! i, padded_index_list ! (i - j))] else []) @
        (if i + j < length padded_index_list
         then [(padded_index_list ! i, padded_index_list ! (i + j))] else [])
      else if direction = ''forward'' then
        (if int i + window_size < int (length padded_index_list)
         then [(padded_index_list ! i, padded_index_list ! (i + j))] else [])
      else
        (if int i < int (length padded_index_list) - window_size
         then [(padded_index_list ! (i + j - 1), padded_index_list ! (i + nat window_size))]
         else []))"

definition create_windowed_index_list ::
  "'a list \<Rightarrow> int \<Rightarrow> string \<Rightarrow> 'a \<Rightarrow> error + ('a list \<times> 'a list)" where
  "create_windowed_index_list index_list window_size direction pad_index =
     (if window_size = 0 then Inl ValueError
      else
        let padded_index_list =
              (if direction = ''backward''
               then replicate (nat window_size) pad_index @ index_list
               else index_list @ replicate (nat window_size) pad_index);
            pairs = concat (map (\<lambda>i. concat (map (\<lambda>j.
                      window_step padded_index_list window_size direction i j)
                        [1 ..< nat (window_size + 1)]))
                      [0 ..< length padded_index_list])
        in Inr (map fst pairs, map snd pairs))"

subsection \<open>SequenceChunker: \<open>create_sequence_lists\<close>\<close>

definition create_sequence_lists :: "'a list \<Rightarrow> int \<Rightarrow> 'a \<Rightarrow> 'a list list" where
  "create_sequence_lists index_list sequence_length pad_index =
     (if sequence_length = 2 then map (\<lambda>index. [index]) index_list
      else
        let padded_list = replicate (nat (sequence_length - 2)) pad_index @ index_list
        in concat (map (\<lambda>i.
             if int i + sequence_length \<le> int (length padded_list)
             then [py_slice padded_list (int i) (int i + sequence_length)] else [])
             [0 ..< length padded_list + 1]))"

subsection \<open>Batcher: \<open>create_batches\<close>\<close>

text \<open>
  \<open>create_batches\<close> is dynamically typed: with \<open>sequence_length == 1\<close> it copies the
  elements of \<open>sequence_list\<close> as they are, otherwise it slices each of them. An element
  is therefore either a scalar or a sequence of elements.
\<close>

datatype 'a pyobj = Scalar 'a | Seq "'a pyobj list"

text \<open>
  The state of either loop: \<open>x_batches\<close>, \<open>y_batches\<close>, \<open>y_window_batches\<close>,
  \<open>current_batch_x\<close>, \<open>current_batch_y\<close>, \<open>current_batch_y_window\<close>.
\<close>

type_synonym 'r batch_state =
  "'r list list \<times> 'r list list \<times> 'r list list \<times> 'r list \<times> 'r list \<times> 'r list"

text \<open>
  The loop of the branch \<open>sequence_length == 1\<close>: \<open>for i in range(len(sequence_list) - 1)\<close>
  reads \<open>sequence_list[i]\<close> and \<open>sequence_list[i + 1]\<close>. The full batch of \<open>y\<close> is
  appended to \<open>y_window_batches\<close> as well; the list is not changed afterwards.
\<close>

fun pair_loop :: "'r list \<Rightarrow> int \<Rightarrow> 'r batch_state \<Rightarrow> 'r batch_state" where
  "pair_loop (a # b # rest) batch_size
       (x_batches, y_batches, y_window_batches, current_batch_x, current_batch_y, current_batch_y_window) =
     (let current_batch_x = current_batch_x @ [a];
          current_batch_y = current_batch_y @ [b];
          current_batch_y_window = current_batch_y_window @ [b]
      in if int (length current_batch_x) = batch_size
         then pair_loop (b # rest) batch_size
                (x_batches @ [current_batch_x], y_batches @ [current_batch_y],
                 y_window_batches @ [current_batch_y], [], [], [])
         else pair_loop (b # rest) batch_size
                (x_batches, y_batches, y_window_batches,
                 current_batch_x, current_batch_y, current_batch_y_window))"
| "pair_loop sequence_list batch_size st = st"

text \<open>
  The loop of the other branch. \<open>sequence[:-1]\<close> on a scalar raises \<open>TypeError\<close>;
  \<open>sequence[-1]\<close> on an empty sequence raises \<open>IndexError\<close>.
\<close>

fun sequence_loop :: "'a pyobj list \<Rightarrow> int \<Rightarrow> 'a pyobj batch_state \<Rightarrow> error + 'a pyobj batch_state" where
  "sequence_loop [] batch_size st = Inr st"
| "sequence_loop (sequence # rest) batch_size
       (x_batches, y_batches, y_window_batches, current_batch_x, current_batch_y, current_batch_y_window) =
     (case sequence of
        Scalar v \<Rightarrow> Inl TypeError
      | Seq s \<Rightarrow>
          if s = [] then Inl IndexError
          else
            let current_batch_x = current_batch_x @ [Seq (butlast s)];
                current_batch_y = current_batch_y @ [Seq [last s]];
                current_batch_y_window = current_batch_y_window @ [Seq (tl s)]
            in if int (length current_batch_x) = batch_size
               then sequence_loop rest batch_size
                      (x_batches @ [current_batch_x], y_batches @ [current_batch_y],
                       y_window_batches @ [current_batch_y_window], [], [], [])
               else sequence_loop rest batch_size
                      (x_batches, y_batches, y_window_batches,
                       current_batch_x, current_batch_y, current_batch_y_window))"

text \<open>
  \<open>while len(current_batch_x) < batch_size\<close> appends one fabricated row to each of the
  three current batches, so it runs \<open>batch_size - len(current_batch_x)\<close> times (not at
  all when that is not positive).
\<close>

definition pad_last_batch :: "int \<Rightarrow> int \<Rightarrow> 'a \<Rightarrow> 'a pyobj batch_state \<Rightarrow> 'a pyobj batch_state" where
  "pad_last_batch batch_size sequence_length pad_index st =
     (case st of
        (x_batches, y_batches, y_window_batches, current_batch_x, current_batch_y, current_batch_y_window) \<Rightarrow>
          if current_batch_x \<noteq> [] then
            let k = nat (batch_size - int (length current_batch_x));
                pad_row = Seq (replicate (nat sequence_length) (Scalar pad_index));
                current_batch_x = current_batch_x @ replicate k pad_row;
                current_batch_y = current_batch_y @ replicate k (Seq [Scalar pad_index]);
                current_batch_y_window = current_batch_y_window @ replicate k pad_row
            in (x_batches @ [current_batch_x], y_batches @ [current_batch_y],
                y_window_batches @ [current_batch_y_window],
                current_batch_x, current_batch_y, current_batch_y_window)
          else st)"

definition create_batches ::
  "'a pyobj list \<Rightarrow> int \<Rightarrow> int \<Rightarrow> 'a \<Rightarrow>
     error + ('a pyobj list list \<times> 'a pyobj list list \<times> 'a pyobj list list)" where
  "create_batches sequence_list batch_size sequence_length pad_index =
     (if sequence_length = 1 then
        (case pair_loop sequence_list batch_size ([], [], [], [], [], []) of
           (x_batches, y_batches, y_window_batches, _) \<Rightarrow>
             Inr (x_batches, y_batches, y_window_batches))
      else
        (case sequence_loop sequence_list batch_size ([], [], [], [], [], []) of
           Inl e \<Rightarrow> Inl e
         | Inr st \<Rightarrow>
             (case pad_last_batch batch_size sequence_length pad_index st of
                (x_batches, y_batches, y_window_batches, _) \<Rightarrow>
                  Inr (x_batches, y_batches, y_window_batches))))"

subsection \<open>Frequency tables\<close>

text \<open>
  A \<open>collections.Counter\<close> is a dictionary from tokens to counts that keeps the order
  in which its keys were inserted: an association list with distinct keys. Reading a
  missing key gives 0; assigning to a key replaces its count in place or appends the
  key. \<open>c += other\<close> adds the counts of \<open>other\<close> key by key and then drops every
  entry whose count is not positive.
\<close>

type_synonym counter = "(string \<times> int) list"

definition counter_get :: "counter \<Rightarrow> string \<Rightarrow> int" where
  "counter_get d k = (case map_of d k of None \<Rightarrow> 0 | Some c \<Rightarrow> c)"

definition counter_iadd :: "counter \<Rightarrow> counter \<Rightarrow> counter" where
  "counter_iadd d other =
     filter (\<lambda>(elem, count). 0 < count)
       (fold (\<lambda>(elem, count) d. AList.update elem (counter_get d elem + count) d) other d)"

subsection \<open>The Document collaborator\<close>

text \<open>
  Modelled from the spec: the class \<open>document.Document\<close> (module \<open>document\<close> is not
  among the sources). The spec says that a document is constructed from a token sequence
  list, a name and a metadata mapping, and that it exposes a frequency table (token to
  count) and the counts of distinct types, of tokens and of sequences. Only these four
  attributes are read by \<open>add_document\<close>.
\<close>

record document =
  doc_name :: "string option"
  doc_type_freq_dict :: counter
  doc_num_types :: int
  doc_num_tokens :: int
  doc_num_sequences :: int

definition Document :: "string list list \<Rightarrow> string option \<Rightarrow> document" where
  "Document sequence_list document_name =
     (let tokens = concat sequence_list;
          freq = fold (\<lambda>token d. AList.update token (counter_get d token + 1) d) tokens []
      in \<lparr>doc_name = document_name,
          doc_type_freq_dict = freq,
          doc_num_types = int (length freq),
          doc_num_tokens = int (length tokens),
          doc_num_sequences = int (length sequence_list)\<rparr>)"

subsection \<open>The corpus object\<close>

text \<open>
  The attributes of \<open>Corpus\<close> that the aggregator and the vocabulary builder read or
  write. \<open>None\<close> is the value \<open>__init__\<close> gives to the vocabulary attributes.
  (\<open>vocab_freq_dict\<close>, \<open>index_list\<close>, \<open>x_list\<close> and \<open>y_list\<close> are not touched by
  these methods and are left out.)
\<close>

record corpus =
  num_documents :: int
  document_list :: "document list"
  num_sequences :: int
  num_tokens :: int
  num_types :: int
  type_list :: "string list"
  type_index_dict :: "string \<rightharpoonup> int"
  type_freq_dict :: counter
  vocab_size :: "int option"
  vocab_list :: "string list option"
  vocab_index_dict :: "(string \<rightharpoonup> int) option"
  unknown_token :: "string option"

definition init_corpus :: corpus where
  "init_corpus =
     \<lparr>num_documents = 0, document_list = [], num_sequences = 0, num_tokens = 0,
      num_types = 0, type_list = [], type_index_dict = Map.empty, type_freq_dict = [],
      vocab_size = None, vocab_list = None, vocab_index_dict = None,
      unknown_token = None\<rparr>"

subsection \<open>CorpusAggregator: \<open>add_document\<close>\<close>

definition add_document :: "corpus \<Rightarrow> string list list \<Rightarrow> string option \<Rightarrow> corpus" where
  "add_document self sequence_list document_name =
     (let new_document = Document sequence_list document_name;
          freq = counter_iadd (type_freq_dict self) (doc_type_freq_dict new_document);
          types = map fst freq
      in self\<lparr>num_documents := num_documents self + 1,
              document_list := document_list self @ [new_document],
              type_freq_dict := freq,
              type_list := types,
              type_index_dict := map_of (zip types (map int [0 ..< length types])),
              num_types := num_types self + doc_num_types new_document,
              num_tokens := num_tokens self + doc_num_tokens new_document,
              num_sequences := num_sequences self + doc_num_sequences new_document\<rparr>)"

subsection \<open>VocabularyBuilder: \<open>set_unknown_token\<close>, \<open>add_token_to_vocab\<close>, \<open>create_vocab\<close>\<close>

text \<open>
  The loop of \<open>set_unknown_token\<close> when no unknown token is set yet: the candidate is
  wrapped in \<open><\<close> and \<open>>\<close> as long as it is a key of the frequency table. Every round
  makes the candidate longer, and the table has a longest key, so the loop ends.
\<close>

function resolve_unknown_token :: "counter \<Rightarrow> string \<Rightarrow> string" where
  "resolve_unknown_token d candidate =
     (if candidate \<in> set (map fst d)
      then resolve_unknown_token d (''<'' @ candidate @ ''>'')
      else candidate)"
  by pat_completeness auto
termination
proof (relation "measure (\<lambda>(d, candidate). Suc (sum_list (map (length \<circ> fst) d)) - length candidate)")
  show "wf (measure (\<lambda>(d, candidate). Suc (sum_list (map (length \<circ> fst) d)) - length candidate))"
    by simp
next
  fix d :: counter and candidate :: string
  assume "candidate \<in> set (map fst d)"
  then have "length candidate \<in> set (map (length \<circ> fst) d)" by auto
  then have "length candidate \<le> sum_list (map (length \<circ> fst) d)"
    by (rule member_le_sum_list) simp
  then show "((d, ''<'' @ candidate @ ''>''), (d, candidate))
      \<in> measure (\<lambda>(d, candidate). Suc (sum_list (map (length \<circ> fst) d)) - length candidate)"
    by simp
qed

text \<open>\<open>while self.unknown_token is None\<close>: nothing happens when a token is already set.\<close>

definition set_unknown_token :: "corpus \<Rightarrow> string \<Rightarrow> corpus" where
  "set_unknown_token self candidate =
     (case unknown_token self of
        None \<Rightarrow> self\<lparr>unknown_token := Some (resolve_unknown_token (type_freq_dict self) candidate)\<rparr>
      | Some u \<Rightarrow> self)"

text \<open>
  \<open>add_token_to_vocab\<close> raises when a vocabulary attribute is still \<open>None\<close>:
  \<open>AttributeError\<close> from \<open>append\<close> when \<open>vocab_list\<close> is \<open>None\<close>, otherwise
  \<open>TypeError\<close> from the item assignment when \<open>vocab_index_dict\<close> is \<open>None\<close>, or from
  \<open>+= 1\<close> when \<open>vocab_size\<close> is \<open>None\<close>. The result of a raising call is the exception
  alone; what the call changed before it raised is not returned. \<open>create_vocab\<close> sets
  the three attributes before its first call.
\<close>

definition add_token_to_vocab :: "corpus \<Rightarrow> string \<Rightarrow> error + corpus" where
  "add_token_to_vocab self token =
     (case vocab_list self of
        None \<Rightarrow> Inl AttributeError
      | Some vl \<Rightarrow>
          (case vocab_index_dict self of
             None \<Rightarrow> Inl TypeError
           | Some vd \<Rightarrow>
               (case vocab_size self of
                  None \<Rightarrow> Inl TypeError
                | Some vs \<Rightarrow>
                    Inr (self\<lparr>vocab_list := Some (vl @ [token]),
                              vocab_index_dict := Some (vd(token \<mapsto> vs)),
                              vocab_size := Some (vs + 1)\<rparr>))))"

text \<open>
  The loop over \<open>include_list\<close>; its state is the corpus, \<open>filtered_freq_dict\<close> and
  \<open>missing_word_list\<close>.
\<close>

fun include_loop ::
  "string list \<Rightarrow> corpus \<Rightarrow> counter \<Rightarrow> string list \<Rightarrow> error + (corpus \<times> counter \<times> string list)" where
  "include_loop [] self filtered_freq_dict missing_word_list =
     Inr (self, filtered_freq_dict, missing_word_list)"
| "include_loop (token # rest) self filtered_freq_dict missing_word_list =
     (if token \<in> set (map fst filtered_freq_dict) then
        (case add_token_to_vocab self token of
           Inl e \<Rightarrow> Inl e
         | Inr self \<Rightarrow>
             include_loop rest self (AList.delete token filtered_freq_dict) missing_word_list)
      else include_loop rest self filtered_freq_dict (missing_word_list @ [token]))"

text \<open>
  The loop over \<open>sorted_tokens\<close>, with its \<open>break\<close>. Comparing or testing membership
  with an attribute that is \<open>None\<close> raises \<open>TypeError\<close>.
\<close>

fun fill_loop :: "string list \<Rightarrow> int \<Rightarrow> corpus \<Rightarrow> error + corpus" where
  "fill_loop [] target self = Inr self"
| "fill_loop (token # rest) target self =
     (case (vocab_size self, vocab_index_dict self) of
        (Some vs, Some vd) \<Rightarrow>
          if target \<le> vs then Inr self
          else if vd token = None then
            (case add_token_to_vocab self token of
               Inl e \<Rightarrow> Inl e
             | Inr self \<Rightarrow> fill_loop rest target self)
          else fill_loop rest target self
      | _ \<Rightarrow> Inl TypeError)"

text \<open>
  \<open>sorted(filtered_freq_dict, key=lambda new_word: (-filtered_freq_dict[new_word], new_word))\<close>:
  a stable sort of the keys by the pair of the negated count and the word, pairs and
  strings being compared lexicographically. A string is a list of bytes here; on UTF-8
  the byte order of strings is Python's code point order.
\<close>

definition sorted_tokens :: "counter \<Rightarrow> string list" where
  "sorted_tokens filtered_freq_dict =
     sort_key (\<lambda>new_word. (- counter_get filtered_freq_dict new_word, new_word))
       (map fst filtered_freq_dict)"

text \<open>
  \<open>create_vocab\<close> returns the list of missing words or raises, and changes the corpus
  in both cases: the result is paired with the corpus as the call leaves it. The
  branches for \<open>AttributeError\<close> and \<open>TypeError\<close> are never taken, since the
  vocabulary attributes are set in the first step and \<open>set_unknown_token\<close> leaves a
  token behind.
\<close>

definition create_vocab ::
  "corpus \<Rightarrow> int option \<Rightarrow> string list \<Rightarrow> string list \<Rightarrow> bool \<Rightarrow> (error + string list) \<times> corpus" where
  "create_vocab self vocab_size_arg include_list exclude_list include_unknown =
     (let self = self\<lparr>vocab_list := Some [], vocab_index_dict := Some Map.empty,
                       vocab_size := Some 0\<rparr>;
          target =
            (case vocab_size_arg of
               None \<Rightarrow>
                 if include_unknown then int (length (type_freq_dict self)) + 1
                 else int (length (type_freq_dict self))
             | Some n \<Rightarrow> n);
          self = (if include_unknown then set_unknown_token self ''<UNK>'' else self)
      in case (if include_unknown
               then (case unknown_token self of
                       None \<Rightarrow> Inl TypeError
                     | Some u \<Rightarrow> add_token_to_vocab self u)
               else Inr self) of
           Inl e \<Rightarrow> (Inl e, self)
         | Inr self \<Rightarrow>
             let filtered_freq_dict = fold AList.delete exclude_list (type_freq_dict self)
             in if length filtered_freq_dict = 0 then (Inl ValueError, self)
                else
                  (case include_loop include_list self filtered_freq_dict [] of
                     Inl e \<Rightarrow> (Inl e, self)
                   | Inr (self, filtered_freq_dict, missing_word_list) \<Rightarrow>
                       (case vocab_size self of
                          None \<Rightarrow> (Inl TypeError, self)
                        | Some vs \<Rightarrow>
                            if vs < target then
                              (case fill_loop (sorted_tokens filtered_freq_dict) target self of
                                 Inl e \<Rightarrow> (Inl e, self)
                               | Inr self \<Rightarrow> (Inr missing_word_list, self))
                            else (Inr missing_word_list, self))))"

subsection \<open>Auxiliary functions for the proofs\<close>

text \<open>
  The common core of the two batching loops, on one of the three lists of rows: append
  the row to the current batch, and move the current batch to the finished batches when
  its length equals \<open>batch_size\<close>.
\<close>

fun group_rows :: "'r list \<Rightarrow> int \<Rightarrow> 'r list list \<Rightarrow> 'r list \<Rightarrow> 'r list list \<times> 'r list" where
  "group_rows [] batch_size batches current = (batches, current)"
| "group_rows (r # rows) batch_size batches current =
     (if int (length (current @ [r])) = batch_size
      then group_rows rows batch_size (batches @ [current @ [r]]) []
      else group_rows rows batch_size batches (current @ [r]))"

text \<open>
  The index dictionary that \<open>add_token_to_vocab\<close> builds for a vocabulary list (a later
  duplicate of a token overwrites its index), and a corpus whose three vocabulary
  attributes describe a given list.
\<close>

definition vocab_map :: "string list \<Rightarrow> (string \<rightharpoonup> int)" where
  "vocab_map L = map_of (rev (zip L (map int [0 ..< length L])))"

definition with_vocab :: "corpus \<Rightarrow> string list \<Rightarrow> corpus" where
  "with_vocab c L =
     c\<lparr>vocab_list := Some L, vocab_index_dict := Some (vocab_map L),
       vocab_size := Some (int (length L))\<rparr>"

text \<open>
  The two loops of \<open>create_vocab\<close> on the vocabulary list alone: the tokens accepted
  from the include list with the remaining table and the missing words, and the list
  after the fill loop.
\<close>

fun include_tokens :: "string list \<Rightarrow> counter \<Rightarrow> string list \<times> counter \<times> string list" where
  "include_tokens [] f = ([], f, [])"
| "include_tokens (t # ts) f =
     (if t \<in> set (map fst f)
      then (case include_tokens ts (AList.delete t f) of (a, f', m) \<Rightarrow> (t # a, f', m))
      else (case include_tokens ts f of (a, f', m) \<Rightarrow> (a, f', t # m)))"

fun fill_tokens :: "string list \<Rightarrow> int \<Rightarrow> string list \<Rightarrow> string list" where
  "fill_tokens [] target L = L"
| "fill_tokens (t # ts) target L =
     (if target \<le> int (length L) then L
      else if t \<notin> set L then fill_tokens ts target (L @ [t])
      else fill_tokens ts target L)"

text \<open>
  The unknown token after \<open>create_vocab\<close>, the target size, and the result and final
  vocabulary list of \<open>create_vocab\<close>, as functions of the frequency table, the unknown
  token before the call and the arguments.
\<close>

definition unknown_after :: "counter \<Rightarrow> string option \<Rightarrow> bool \<Rightarrow> string option" where
  "unknown_after d u include_unknown =
     (if include_unknown
      then (case u of None \<Rightarrow> Some (resolve_unknown_token d ''<UNK>'') | Some w \<Rightarrow> Some w)
      else u)"

definition target_size :: "counter \<Rightarrow> int option \<Rightarrow> bool \<Rightarrow> int" where
  "target_size d vocab_size_arg include_unknown =
     (case vocab_size_arg of
        None \<Rightarrow> if include_unknown then int (length d) + 1 else int (length d)
      | Some n \<Rightarrow> n)"

definition vocab_result ::
  "counter \<Rightarrow> string option \<Rightarrow> int option \<Rightarrow> string list \<Rightarrow> string list \<Rightarrow> bool \<Rightarrow>
     (error + string list) \<times> string list" where
  "vocab_result d u vocab_size_arg include_list exclude_list include_unknown =
     (let L0 = (case unknown_after d u include_unknown of
                  Some w \<Rightarrow> if include_unknown then [w] else []
                | None \<Rightarrow> []);
          filtered = fold AList.delete exclude_list d
      in if filtered = [] then (Inl ValueError, L0)
         else
           (case include_tokens include_list filtered of
              (a, f', m) \<Rightarrow>
                (Inr m,
                 if int (length (L0 @ a)) < target_size d vocab_size_arg include_unknown
                 then fill_tokens (sorted_tokens f')
                        (target_size d vocab_size_arg include_unknown) (L0 @ a)
                 else L0 @ a)))"

text \<open>
  The order of the frequency fill in the spec's words: \<open>s\<close> comes before \<open>t\<close> when it is
  more frequent, or as frequent and lexicographically smaller.
\<close>

definition ranks_before :: "counter \<Rightarrow> string \<Rightarrow> string \<Rightarrow> bool" where
  "ranks_before d s t \<longleftrightarrow>
     counter_get d t < counter_get d s \<or> (counter_get d s = counter_get d t \<and> s < t)"


section \<open>Properties of the WindowExpander\<close>

text \<open>
  C2 (amended). In mode \<open>both\<close> with \<open>window_size = 1\<close> the sequence \<open>[a, b, c]\<close> is
  padded to \<open>[a, b, c, pad]\<close> and every position of the padded list is a centre, the
  padding position too: the pairs are \<open>(a,b), (b,a), (b,c), (c,b), (c,pad), (pad,c)\<close>, in
  this order, returned as the list of centres and the list of contexts.
\<close>

theorem create_windowed_index_list_both_abc:
  "create_windowed_index_list [a, b, c] 1 ''both'' pad =
     Inr ([a, b, b, c, c, pad], [b, a, c, b, pad, c])"
  by (simp add: create_windowed_index_list_def window_step_def upt_rec)

text \<open>
  C2 as stated (five pairs, ending with \<open>(c,pad)\<close>) fails: the sixth pair \<open>(pad,c)\<close> is
  returned as well.
\<close>

theorem create_windowed_index_list_both_counterexample:
  "create_windowed_index_list [1, 2, 3] 1 ''both'' (0::int) \<noteq>
     Inr ([1, 2, 2, 3, 3], [2, 1, 3, 2, 0])"
  by (simp add: create_windowed_index_list_def window_step_def upt_rec)

section \<open>Properties of the Indexer\<close>

lemma create_simple_index_list_unknown:
  "vd w = Some k \<Longrightarrow>
   create_simple_index_list ts vd (Some w) = Inr (map (\<lambda>t. case vd t of Some i \<Rightarrow> i | None \<Rightarrow> k) ts)"
  by (induction ts) (simp_all add: token_index_def split: option.splits)

lemma create_simple_index_list_present:
  "set ts \<subseteq> dom vd \<Longrightarrow>
   create_simple_index_list ts vd u = Inr (map (\<lambda>t. the (vd t)) ts)"
  by (induction ts) (auto simp: token_index_def split: option.splits)

lemma create_simple_index_list_error:
  "\<not> set ts \<subseteq> dom vd \<Longrightarrow> u = None \<or> (\<exists>w. u = Some w \<and> vd w = None) \<Longrightarrow>
   create_simple_index_list ts vd u = Inl KeyError"
proof (induction ts)
  case Nil
  then show ?case by simp
next
  case (Cons t ts)
  show ?case
  proof (cases "vd t")
    case None
    with Cons.prems(2) show ?thesis by (auto simp: token_index_def)
  next
    case (Some i)
    with Cons.prems(1) have "\<not> set ts \<subseteq> dom vd" by auto
    from Cons.IH [OF this Cons.prems(2)] Some show ?thesis
      by (simp add: token_index_def)
  qed
qed

lemma map_the_dom: "set ts \<subseteq> dom vd \<Longrightarrow> map vd ts = map Some (map (\<lambda>t. the (vd t)) ts)"
  by (induction ts) auto

text \<open>
  C5. On a token list whose tokens all have an entry in the index map,
  \<open>create_simple_index_list\<close> returns their assigned indices. When the unknown token
  has an index \<open>k\<close> in the map, every token with an entry maps to its index and every
  other token to \<open>k\<close>. When some token has no entry and no unknown token is configured
  (it is \<open>None\<close>, or it has no entry itself), the call raises \<open>KeyError\<close> and returns
  no result.
\<close>

theorem create_simple_index_list_lookup:
  "(set ts \<subseteq> dom vd \<longrightarrow>
      (\<exists>index_list. create_simple_index_list ts vd u = Inr index_list \<and>
         map vd ts = map Some index_list)) \<and>
   (vd w = Some k \<longrightarrow>
      create_simple_index_list ts vd (Some w) =
        Inr (map (\<lambda>t. case vd t of Some i \<Rightarrow> i | None \<Rightarrow> k) ts)) \<and>
   (\<not> set ts \<subseteq> dom vd \<longrightarrow> create_simple_index_list ts vd None = Inl KeyError) \<and>
   (\<not> set ts \<subseteq> dom vd \<and> vd w = None \<longrightarrow>
      create_simple_index_list ts vd (Some w) = Inl KeyError)"
proof (intro conjI impI)
  assume "set ts \<subseteq> dom vd"
  then show "\<exists>index_list. create_simple_index_list ts vd u = Inr index_list \<and>
         map vd ts = map Some index_list"
    using create_simple_index_list_present map_the_dom by blast
next
  assume "vd w = Some k"
  then show "create_simple_index_list ts vd (Some w) =
        Inr (map (\<lambda>t. case vd t of Some i \<Rightarrow> i | None \<Rightarrow> k) ts)"
    by (rule create_simple_index_list_unknown)
next
  assume "\<not> set ts \<subseteq> dom vd"
  then show "create_simple_index_list ts vd None = Inl KeyError"
    by (rule create_simple_index_list_error) simp
next
  assume "\<not> set ts \<subseteq> dom vd \<and> vd w = None"
  then show "create_simple_index_list ts vd (Some w) = Inl KeyError"
    by (intro create_simple_index_list_error) simp_all
qed

theorem create_simple_index_list_lookup_witness:
  "create_simple_index_list [''a'', ''a''] [''<UNK>'' \<mapsto> 0, ''a'' \<mapsto> 1] None = Inr [1, 1] \<and>
   create_simple_index_list [''a'', ''b''] [''<UNK>'' \<mapsto> 0, ''a'' \<mapsto> 1] (Some ''<UNK>'') = Inr [1, 0] \<and>
   create_simple_index_list [''a'', ''b''] [''<UNK>'' \<mapsto> 0, ''a'' \<mapsto> 1] None = Inl KeyError \<and>
   create_simple_index_list [''a'', ''b''] [''<UNK>'' \<mapsto> 0, ''a'' \<mapsto> 1] (Some ''c'') = Inl KeyError"
proof -
  let ?vd = "[''<UNK>'' \<mapsto> 0::int, ''a'' \<mapsto> 1]"
  have present: "set [''a'', ''a''] \<subseteq> dom ?vd" by simp
  have absent: "\<not> set [''a'', ''b''] \<subseteq> dom ?vd" by simp
  have unk: "?vd ''<UNK>'' = Some 0" by simp
  have c: "?vd ''c'' = None" by simp
  from create_simple_index_list_lookup [of "[''a'', ''a'']" ?vd None "''<UNK>''" 0] present
  obtain index_list where "create_simple_index_list [''a'', ''a''] ?vd None = Inr index_list"
    and "map ?vd [''a'', ''a''] = map Some index_list"
    by blast
  then have 1: "create_simple_index_list [''a'', ''a''] ?vd None = Inr [1, 1]"
    by auto
  from create_simple_index_list_lookup [of "[''a'', ''b'']" ?vd None "''<UNK>''" 0] unk
  have "create_simple_index_list [''a'', ''b''] ?vd (Some ''<UNK>'') =
      Inr (map (\<lambda>t. case ?vd t of Some i \<Rightarrow> i | None \<Rightarrow> 0) [''a'', ''b''])"
    by blast
  then have 2: "create_simple_index_list [''a'', ''b''] ?vd (Some ''<UNK>'') = Inr [1, 0]"
    by simp
  from create_simple_index_list_lookup [of "[''a'', ''b'']" ?vd None "''c''" 0] absent c
  have 3: "create_simple_index_list [''a'', ''b''] ?vd None = Inl KeyError"
    and 4: "create_simple_index_list [''a'', ''b''] ?vd (Some ''c'') = Inl KeyError"
    by blast+
  from 1 2 3 4 show ?thesis by blast
qed

section \<open>Properties of the SequenceChunker\<close>

lemma py_slice_window:
  assumes "0 \<le> L" "int i + L \<le> int (length xs)"
  shows "py_slice xs (int i) (int i + L) = take (nat L) (drop i xs)"
  using assms by (simp add: py_slice_def slice_bound_def Let_def min_def)

lemma concat_map_guard:
  "concat (map (\<lambda>i. if P i then [f i] else []) is) = map f (filter P is)"
  by (induction "is") simp_all

lemma filter_upt_fits:
  assumes "0 \<le> L"
  shows "filter (\<lambda>i. int i + L \<le> int n) [0 ..< n + 1] = [0 ..< n + 1 - nat L]"
proof -
  have "filter (\<lambda>i. int i + L \<le> int n) [0 ..< m] = [0 ..< min m (n + 1 - nat L)]" for m
  proof (induction m)
    case 0
    show ?case by simp
  next
    case (Suc m)
    show ?case
    proof (cases "int m + L \<le> int n")
      case True
      with assms have "m < n + 1 - nat L" by linarith
      then have "min (Suc m) (n + 1 - nat L) = Suc m" "min m (n + 1 - nat L) = m" by simp_all
      with Suc True show ?thesis by simp
    next
      case False
      with assms have "n + 1 - nat L \<le> m" by linarith
      then have "min (Suc m) (n + 1 - nat L) = n + 1 - nat L" "min m (n + 1 - nat L) = n + 1 - nat L"
        by simp_all
      with Suc False show ?thesis by simp
    qed
  qed
  from this [of "n + 1"] show ?thesis by simp
qed

lemma create_sequence_lists_eq:
  assumes "0 \<le> L" "L \<noteq> 2"
  shows "create_sequence_lists xs L pad =
     map (\<lambda>i. take (nat L) (drop i (replicate (nat (L - 2)) pad @ xs)))
       [0 ..< length (replicate (nat (L - 2)) pad @ xs) + 1 - nat L]"
proof -
  let ?p = "replicate (nat (L - 2)) pad @ xs"
  have "create_sequence_lists xs L pad =
      map (\<lambda>i. py_slice ?p (int i) (int i + L)) (filter (\<lambda>i. int i + L \<le> int (length ?p)) [0 ..< length ?p + 1])"
    using assms(2) unfolding create_sequence_lists_def Let_def
    by (simp only: concat_map_guard if_False)
  also have "\<dots> = map (\<lambda>i. take (nat L) (drop i ?p)) (filter (\<lambda>i. int i + L \<le> int (length ?p)) [0 ..< length ?p + 1])"
  proof (rule map_cong [OF refl])
    fix i assume "i \<in> set (filter (\<lambda>i. int i + L \<le> int (length ?p)) [0 ..< length ?p + 1])"
    then have "int i + L \<le> int (length ?p)" by (simp only: set_filter mem_Collect_eq)
    with assms(1) show "py_slice ?p (int i) (int i + L) = take (nat L) (drop i ?p)"
      by (rule py_slice_window)
  qed
  finally show ?thesis using assms(1) by (simp only: filter_upt_fits)
qed

lemma length_take_drop: "i + n \<le> length xs \<Longrightarrow> length (take n (drop i xs)) = n"
  by simp

lemma last_take_drop:
  assumes "0 < n" "i + n \<le> length xs"
  shows "last (take n (drop i xs)) = xs ! (i + n - 1)"
proof -
  have "take n (drop i xs) \<noteq> []" using assms by simp
  then have "last (take n (drop i xs)) = take n (drop i xs) ! (length (take n (drop i xs)) - 1)"
    by (rule last_conv_nth)
  also have "length (take n (drop i xs)) = n" using assms by simp
  also have "take n (drop i xs) ! (n - 1) = xs ! (i + (n - 1))" using assms by simp
  finally show ?thesis using assms by simp
qed


text \<open>
  C9 (amended to chunk lengths of at least 1). With chunk length 2,
  \<open>create_sequence_lists\<close> returns one single-element chunk per index. With a chunk
  length \<open>L \<ge> 1\<close> other than 2 it returns the stride-1 windows of size \<open>L\<close> of the
  index list left-padded with \<open>L - 2\<close> pad indices (none for \<open>L = 1\<close>), as many as fit;
  every chunk has length \<open>L\<close>, and the last element of the \<open>k\<close>-th chunk is the
  element of the original index list at position \<open>k + 1\<close> (\<open>k\<close> for \<open>L = 1\<close>), so it
  never comes from the padding.
\<close>

theorem create_sequence_lists_chunks:
  "create_sequence_lists xs 2 pad = map (\<lambda>index. [index]) xs \<and>
   (1 \<le> L \<and> L \<noteq> 2 \<longrightarrow>
      create_sequence_lists xs L pad =
        map (\<lambda>i. take (nat L) (drop i (replicate (nat (L - 2)) pad @ xs)))
          [0 ..< length (replicate (nat (L - 2)) pad @ xs) + 1 - nat L] \<and>
      (\<forall>chunk \<in> set (create_sequence_lists xs L pad).
         length chunk = nat L \<and> last chunk \<in> set xs) \<and>
      (\<forall>k < length (create_sequence_lists xs L pad).
         (if L = 1 then k else Suc k) < length xs \<and>
         last (create_sequence_lists xs L pad ! k) = xs ! (if L = 1 then k else Suc k)))"
proof (intro conjI impI)
  show "create_sequence_lists xs 2 pad = map (\<lambda>index. [index]) xs"
    by (simp add: create_sequence_lists_def)
next
  assume L: "1 \<le> L \<and> L \<noteq> 2"
  let ?p = "replicate (nat (L - 2)) pad @ xs"
  let ?n = "length ?p + 1 - nat L"
  from L show eq: "create_sequence_lists xs L pad = map (\<lambda>i. take (nat L) (drop i ?p)) [0 ..< ?n]"
    by (intro create_sequence_lists_eq) simp_all
  have len: "length (create_sequence_lists xs L pad) = ?n"
    by (simp only: eq length_map length_upt diff_zero)
  have nth: "create_sequence_lists xs L pad ! k = take (nat L) (drop k ?p)" if "k < ?n" for k
    using that by (simp only: eq nth_map_upt diff_zero add_0)
  have pos: "(if L = 1 then k else Suc k) < length xs \<and>
      last (take (nat L) (drop k ?p)) = xs ! (if L = 1 then k else Suc k)" if "k < ?n" for k
  proof -
    from that L have fit: "k + nat L \<le> length ?p" and pos: "0 < nat L" by simp_all
    have "last (take (nat L) (drop k ?p)) = ?p ! (k + nat L - 1)"
      using pos fit by (rule last_take_drop)
    moreover have "nat (L - 2) \<le> k + nat L - 1" using L by linarith
    then have "?p ! (k + nat L - 1) = xs ! (k + nat L - 1 - nat (L - 2))"
      by (simp add: nth_append)
    moreover have "k + nat L - 1 - nat (L - 2) = (if L = 1 then k else Suc k)"
      using L by (auto simp: nat_diff_distrib)
    moreover have "k + nat L - 1 - nat (L - 2) < length xs"
      using fit L by (simp add: nat_diff_distrib) linarith
    ultimately show ?thesis by simp
  qed
  show "\<forall>k < length (create_sequence_lists xs L pad).
         (if L = 1 then k else Suc k) < length xs \<and>
         last (create_sequence_lists xs L pad ! k) = xs ! (if L = 1 then k else Suc k)"
  proof (intro allI impI)
    fix k assume "k < length (create_sequence_lists xs L pad)"
    then have k: "k < ?n" by (simp only: len)
    from pos [OF k] show "(if L = 1 then k else Suc k) < length xs \<and>
         last (create_sequence_lists xs L pad ! k) = xs ! (if L = 1 then k else Suc k)"
      by (simp only: nth [OF k])
  qed
  show "\<forall>chunk \<in> set (create_sequence_lists xs L pad). length chunk = nat L \<and> last chunk \<in> set xs"
  proof
    fix chunk assume "chunk \<in> set (create_sequence_lists xs L pad)"
    then have "chunk \<in> (\<lambda>i. take (nat L) (drop i ?p)) ` set [0 ..< ?n]"
      by (simp only: eq set_map)
    then obtain k where k: "k < ?n" and c: "chunk = take (nat L) (drop k ?p)"
      by auto
    from k have "k + nat L \<le> length ?p" by linarith
    then have "length chunk = nat L" unfolding c by (rule length_take_drop)
    moreover from pos [OF k] have "last chunk \<in> set xs" unfolding c
      using nth_mem by metis
    ultimately show "length chunk = nat L \<and> last chunk \<in> set xs" ..
  qed
qed

theorem create_sequence_lists_chunks_witness:
  "(1::int) \<le> 3 \<and> (3::int) \<noteq> 2 \<and>
   create_sequence_lists [1, 2, 3] 2 (0::int) = [[1], [2], [3]] \<and>
   create_sequence_lists [1, 2, 3] 3 (0::int) = [[0, 1, 2], [1, 2, 3]] \<and>
   last (create_sequence_lists [1, 2, 3] 3 (0::int) ! 0) = [1, 2, 3] ! 1 \<and>
   last (create_sequence_lists [1, 2, 3] 3 (0::int) ! 1) = [1, 2, 3] ! 2"
proof -
  note t = create_sequence_lists_chunks [of "[1, 2, 3]" "0::int" 3]
  have h: "(1::int) \<le> 3 \<and> (3::int) \<noteq> 2" by simp
  have two: "create_sequence_lists [1, 2, 3] 2 (0::int) = [[1], [2], [3]]"
    using t by simp
  from t h have "create_sequence_lists [1, 2, 3] 3 (0::int) =
      map (\<lambda>i. take (nat 3) (drop i (replicate (nat (3 - 2)) 0 @ [1, 2, 3])))
        [0 ..< length (replicate (nat (3 - 2)) (0::int) @ [1, 2, 3]) + 1 - nat 3]"
    by blast
  also have "\<dots> = [[0, 1, 2], [1, 2, 3]]"
    by (simp add: upt_rec)
  finally have three: "create_sequence_lists [1, 2, 3] 3 (0::int) = [[0, 1, 2], [1, 2, 3]]" .
  from h two three show ?thesis by simp
qed

text \<open>
  C9, as stated for every chunk length other than 2, fails at chunk lengths below 1:
  with chunk length 0 every returned chunk is empty and has no last element, and with
  chunk length \<open>-1\<close> the slice \<open>padded_list[0:-1]\<close> is not a window of that size.
\<close>

theorem create_sequence_lists_nonpositive_counterexample:
  "create_sequence_lists [1, 2, 3] 0 (0::int) = [[], [], [], []] \<and>
   create_sequence_lists [1, 2, 3] (- 1) (0::int) = [[1, 2], [], [], []]"
  by (simp add: create_sequence_lists_def py_slice_def slice_bound_def upt_rec)

section \<open>Properties of the Batcher\<close>

lemma group_rows_concat:
  "concat (fst (group_rows rows bs acc cur)) @ snd (group_rows rows bs acc cur) = concat acc @ cur @ rows"
  by (induction rows bs acc cur rule: group_rows.induct) simp_all

lemma group_rows_batch_length:
  "\<forall>b \<in> set acc. int (length b) = bs \<Longrightarrow> \<forall>b \<in> set (fst (group_rows rows bs acc cur)). int (length b) = bs"
proof (induction rows bs acc cur rule: group_rows.induct)
  case (1 bs acc cur)
  then show ?case by simp
next
  case (2 r rows bs acc cur)
  show ?case
  proof (cases "int (length (cur @ [r])) = bs")
    case True
    with "2.prems" have "\<forall>b \<in> set (acc @ [cur @ [r]]). int (length b) = bs"
      by (simp add: ball_Un)
    from "2.IH"(1) [OF True this] show ?thesis by (simp only: group_rows.simps True simp_thms if_True)
  next
    case False
    from "2.IH"(2) [OF False "2.prems"] show ?thesis by (simp only: group_rows.simps False if_False)
  qed
qed

lemma group_rows_rest_length:
  "0 < bs \<Longrightarrow> int (length cur) < bs \<Longrightarrow> int (length (snd (group_rows rows bs acc cur))) < bs"
  by (induction rows bs acc cur rule: group_rows.induct) simp_all

lemma group_rows_nonpositive:
  "bs \<le> 0 \<Longrightarrow> group_rows rows bs acc cur = (acc, cur @ rows)"
  by (induction rows bs acc cur rule: group_rows.induct) simp_all

lemma length_concat_uniform:
  "\<forall>b \<in> set bss. length b = n \<Longrightarrow> length (concat bss) = length bss * n"
  by (induction bss) simp_all

lemma div_mod_unique_nat:
  fixes k r n m :: nat
  assumes "m = k * n + r" "r < n"
  shows "k = m div n" and "r = m mod n"
proof -
  from assms show "k = m div n" by simp
  from assms show "r = m mod n" by simp
qed

text \<open>The number of finished batches and of left-over rows.\<close>

lemma group_rows_count:
  assumes "0 < bs"
  shows "length (fst (group_rows rows bs [] [])) = length rows div nat bs"
    and "length (snd (group_rows rows bs [] [])) = length rows mod nat bs"
proof -
  let ?g = "group_rows rows bs [] []"
  have "\<forall>b \<in> set (fst ?g). int (length b) = bs"
    by (rule group_rows_batch_length) simp
  then have all: "\<forall>b \<in> set (fst ?g). length b = nat bs" by auto
  have c: "length (concat (fst ?g)) = length (fst ?g) * nat bs"
    using all by (rule length_concat_uniform)
  have "length (concat (fst ?g) @ snd ?g) = length (concat [] @ [] @ rows)"
    by (simp only: group_rows_concat)
  then have s: "length (concat (fst ?g)) + length (snd ?g) = length rows" by simp
  have "int (length (snd ?g)) < bs"
    by (rule group_rows_rest_length [OF assms]) (use assms in simp)
  then have lt: "length (snd ?g) < nat bs" by linarith
  from c s have eq: "length rows = length (fst ?g) * nat bs + length (snd ?g)" by linarith
  from div_mod_unique_nat(1) [OF eq lt] show "length (fst ?g) = length rows div nat bs" .
  from div_mod_unique_nat(2) [OF eq lt] show "length (snd ?g) = length rows mod nat bs" .
qed

lemma pair_loop_x:
  "fst (pair_loop seq bs (xb, yb, ywb, cx, cy, cyw)) = fst (group_rows (butlast seq) bs xb cx)"
proof (induction seq bs "(xb, yb, ywb, cx, cy, cyw)" arbitrary: xb yb ywb cx cy cyw rule: pair_loop.induct)
  case (1 a b rest bs xb yb ywb cx cy cyw)
  show ?case
  proof (cases "int (length (cx @ [a])) = bs")
    case True
    from "1.hyps"(1) [OF refl refl refl True] True show ?thesis by (simp add: Let_def)
  next
    case False
    from "1.hyps"(2) [OF refl refl refl False] False show ?thesis by (simp add: Let_def)
  qed
qed simp_all

lemma pair_loop_y:
  "length cx = length cy \<Longrightarrow>
   fst (snd (pair_loop seq bs (xb, yb, ywb, cx, cy, cyw))) = fst (group_rows (tl seq) bs yb cy)"
proof (induction seq bs "(xb, yb, ywb, cx, cy, cyw)" arbitrary: xb yb ywb cx cy cyw rule: pair_loop.induct)
  case (1 a b rest bs xb yb ywb cx cy cyw)
  show ?case
  proof (cases "int (length (cx @ [a])) = bs")
    case True
    from "1.hyps"(1) [OF refl refl refl True] True "1.prems" show ?thesis by (simp add: Let_def)
  next
    case False
    from "1.hyps"(2) [OF refl refl refl False] False "1.prems" show ?thesis by (simp add: Let_def)
  qed
qed simp_all

lemma pair_loop_y_window:
  "fst (snd (snd (pair_loop seq bs (xb, yb, yb, cx, cy, cyw)))) =
   fst (snd (pair_loop seq bs (xb, yb, yb, cx, cy, cyw)))"
proof (induction seq bs "(xb, yb, yb, cx, cy, cyw)" arbitrary: xb yb cx cy cyw rule: pair_loop.induct)
  case (1 a b rest bs xb yb cx cy cyw)
  show ?case
  proof (cases "int (length (cx @ [a])) = bs")
    case True
    from "1.hyps"(1) [OF refl refl refl True] True show ?thesis by (simp add: Let_def)
  next
    case False
    from "1.hyps"(2) [OF refl refl refl False] False show ?thesis by (simp add: Let_def)
  qed
qed simp_all

lemma group_rows_prefix:
  "length (fst (group_rows rows bs [] [])) = (if bs \<le> 0 then 0 else length rows div nat bs) \<and>
   (\<forall>b \<in> set (fst (group_rows rows bs [] [])). int (length b) = bs) \<and>
   concat (fst (group_rows rows bs [] [])) =
     take (length (fst (group_rows rows bs [] [])) * nat bs) rows"
proof (cases "bs \<le> 0")
  case True
  then show ?thesis by (simp add: group_rows_nonpositive)
next
  case False
  then have pos: "0 < bs" by simp
  let ?g = "group_rows rows bs [] []"
  have len: "\<forall>b \<in> set (fst ?g). int (length b) = bs"
    by (rule group_rows_batch_length) simp
  then have "\<forall>b \<in> set (fst ?g). length b = nat bs" by auto
  then have c: "length (concat (fst ?g)) = length (fst ?g) * nat bs"
    by (rule length_concat_uniform)
  have "concat (fst ?g) @ snd ?g = rows"
    using group_rows_concat [of rows bs "[]" "[]"] by simp
  then have "take (length (concat (fst ?g))) rows = concat (fst ?g)"
    by (metis append_eq_conv_conj)
  with c have "concat (fst ?g) = take (length (fst ?g) * nat bs) rows" by simp
  with len group_rows_count(1) [OF pos, of rows] False show ?thesis by simp
qed

text \<open>
  C8. With \<open>sequence_length = 1\<close>, \<open>create_batches\<close> always returns; the batches of
  \<open>x\<close> are consecutive groups of exactly \<open>batch_size\<close> elements of the input without
  its last element (\<open>token[i]\<close>), the batches of \<open>y\<close> the corresponding groups of the
  input without its first element (\<open>token[i + 1]\<close>); there are
  \<open>(len - 1) div batch_size\<close> of them (none when \<open>batch_size \<le> 0\<close>), so a trailing
  group smaller than \<open>batch_size\<close> is dropped and nothing is padded; and
  \<open>y_window_batches\<close> is \<open>y_batches\<close>.
\<close>

theorem create_batches_degenerate:
  "\<exists>x_batches y_batches.
     create_batches sequence_list batch_size 1 pad_index = Inr (x_batches, y_batches, y_batches) \<and>
     length x_batches =
       (if batch_size \<le> 0 then 0 else (length sequence_list - 1) div nat batch_size) \<and>
     length y_batches = length x_batches \<and>
     (\<forall>b \<in> set x_batches. int (length b) = batch_size) \<and>
     (\<forall>b \<in> set y_batches. int (length b) = batch_size) \<and>
     concat x_batches = take (length x_batches * nat batch_size) (butlast sequence_list) \<and>
     concat y_batches = take (length x_batches * nat batch_size) (tl sequence_list)"
proof -
  let ?X = "fst (group_rows (butlast sequence_list) batch_size [] [])"
  let ?Y = "fst (group_rows (tl sequence_list) batch_size [] [])"
  obtain x y yw r where loop: "pair_loop sequence_list batch_size ([], [], [], [], [], []) = (x, y, yw, r)"
    by (metis prod_cases4)
  have x: "x = ?X"
    using pair_loop_x [of sequence_list batch_size "[]" "[]" "[]" "[]" "[]" "[]"] loop by simp
  have y: "y = ?Y"
    using pair_loop_y [of "[]" "[]" sequence_list batch_size "[]" "[]" "[]" "[]"] loop by simp
  have yw: "yw = y"
    using pair_loop_y_window [of sequence_list batch_size "[]" "[]" "[]" "[]" "[]"] loop by simp
  have res: "create_batches sequence_list batch_size 1 pad_index = Inr (?X, ?Y, ?Y)"
    by (simp add: create_batches_def loop x [symmetric] y [symmetric] yw)
  note px = group_rows_prefix [of "butlast sequence_list" batch_size]
  note py = group_rows_prefix [of "tl sequence_list" batch_size]
  have lx: "length ?X = (if batch_size \<le> 0 then 0 else (length sequence_list - 1) div nat batch_size)"
    using px by simp
  have ly: "length ?Y = length ?X"
    using px py by simp
  show ?thesis
    apply (rule exI [of _ ?X])
    apply (rule exI [of _ ?Y])
    using res lx ly px py apply (simp only:)
    apply blast
    done
qed

theorem create_batches_degenerate_witness:
  "create_batches (map Scalar [1, 2, 3, 4, 5, 6]) 2 1 (0::int) =
     Inr ([[Scalar 1, Scalar 2], [Scalar 3, Scalar 4]],
          [[Scalar 2, Scalar 3], [Scalar 4, Scalar 5]],
          [[Scalar 2, Scalar 3], [Scalar 4, Scalar 5]])"
  using create_batches_degenerate [of "map Scalar [1, 2, 3, 4, 5, 6::int]" 2 0]
  by (simp add: create_batches_def Let_def)

lemma sequence_loop_group:
  assumes "\<forall>s \<in> set ss. s \<noteq> []" "length cy = length cx" "length cyw = length cx"
  shows "sequence_loop (map Seq ss) bs (xb, yb, ywb, cx, cy, cyw) =
     Inr (fst (group_rows (map (\<lambda>s. Seq (butlast s)) ss) bs xb cx),
          fst (group_rows (map (\<lambda>s. Seq [last s]) ss) bs yb cy),
          fst (group_rows (map (\<lambda>s. Seq (tl s)) ss) bs ywb cyw),
          snd (group_rows (map (\<lambda>s. Seq (butlast s)) ss) bs xb cx),
          snd (group_rows (map (\<lambda>s. Seq [last s]) ss) bs yb cy),
          snd (group_rows (map (\<lambda>s. Seq (tl s)) ss) bs ywb cyw))"
  using assms
proof (induction ss arbitrary: xb yb ywb cx cy cyw)
  case Nil
  show ?case by simp
next
  case (Cons s ss)
  from Cons.prems have ne: "s \<noteq> []" and rest: "\<forall>s \<in> set ss. s \<noteq> []" by simp_all
  show ?case
  proof (cases "int (length (cx @ [Seq (butlast s)])) = bs")
    case True
    with Cons.prems have "int (length (cy @ [Seq [last s]])) = bs"
      "int (length (cyw @ [Seq (tl s)])) = bs" by simp_all
    with True ne Cons.IH [OF rest, of "[]" "[]" "[]"] show ?thesis
      by (simp add: Let_def)
  next
    case False
    with Cons.prems have "int (length (cy @ [Seq [last s]])) \<noteq> bs"
      "int (length (cyw @ [Seq (tl s)])) \<noteq> bs" by simp_all
    moreover have "length (cy @ [Seq [last s]]) = length (cx @ [Seq (butlast s)])"
      "length (cyw @ [Seq (tl s)]) = length (cx @ [Seq (butlast s)])"
      using Cons.prems by simp_all
    ultimately show ?thesis using False ne Cons.IH [OF rest]
      by (simp add: Let_def)
  qed
qed

lemma group_rows_padded:
  fixes rows :: "'r list" and bs :: int and p :: 'r
  assumes pos: "0 < bs"
  defines "m \<equiv> length rows mod nat bs"
  defines "k \<equiv> (nat bs - length rows mod nat bs) mod nat bs"
  defines "g \<equiv> group_rows rows bs [] []"
  defines "final \<equiv> (if m \<noteq> 0 then fst g @ [snd g @ replicate (nat bs - m) p] else fst g)"
  shows "concat final = rows @ replicate k p"
    and "\<forall>b \<in> set final. int (length b) = bs"
    and "length final * nat bs = length rows + k"
proof -
  have full: "\<forall>b \<in> set (fst g). int (length b) = bs"
    unfolding g_def by (rule group_rows_batch_length) simp
  have rest: "length (snd g) = m"
    unfolding g_def m_def by (rule group_rows_count(2) [OF pos])
  have cat: "concat (fst g) @ snd g = rows"
    unfolding g_def using group_rows_concat [of rows bs "[]" "[]"] by simp
  have mlt: "m < nat bs" unfolding m_def using pos by simp
  have k: "k = (if m = 0 then 0 else nat bs - m)"
    unfolding k_def m_def [symmetric] using mlt by simp
  show c: "concat final = rows @ replicate k p"
  proof (cases "m = 0")
    case True
    with rest have "snd g = []" by simp
    with cat True k show ?thesis by (simp add: final_def)
  next
    case False
    have "concat final = (concat (fst g) @ snd g) @ replicate (nat bs - m) p"
      using False by (simp add: final_def)
    with cat k False show ?thesis by simp
  qed
  show u: "\<forall>b \<in> set final. int (length b) = bs"
  proof (cases "m = 0")
    case True
    with full show ?thesis by (simp add: final_def)
  next
    case False
    have "int (length (snd g @ replicate (nat bs - m) p)) = bs"
      using rest mlt pos by simp
    with full False show ?thesis by (simp add: final_def ball_Un)
  qed
  from u have "\<forall>b \<in> set final. length b = nat bs" by auto
  then have "length (concat final) = length final * nat bs"
    by (rule length_concat_uniform)
  with c show "length final * nat bs = length rows + k" by simp
qed

text \<open>
  C7 (amended to a batch size of at least 1). With \<open>sequence_length > 1\<close>,
  \<open>batch_size \<ge> 1\<close> and chunks of length \<open>sequence_length + 1\<close>, \<open>create_batches\<close>
  returns three batch lists of the same length. Read in order, the rows of \<open>x\<close> are
  the chunks without their last element, those of \<open>y\<close> the singletons of the last
  elements, those of \<open>y_window\<close> the chunks without their first element, each followed
  by \<open>k\<close> fabricated rows (all-pad rows of length \<open>sequence_length\<close>, a singleton pad
  for \<open>y\<close>), where \<open>k < batch_size\<close> fills the last batch. Every batch has exactly
  \<open>batch_size\<close> rows, and the rows of one list have one length.
\<close>

theorem create_batches_general:
  fixes chunks :: "'a pyobj list list" and batch_size sequence_length :: int and pad_index :: 'a
  assumes "1 < sequence_length" and "1 \<le> batch_size"
    and "\<forall>s \<in> set chunks. int (length s) = sequence_length + 1"
  defines "k \<equiv> (nat batch_size - length chunks mod nat batch_size) mod nat batch_size"
  defines "pad_row \<equiv> Seq (replicate (nat sequence_length) (Scalar pad_index))"
  shows "\<exists>x_batches y_batches y_window_batches.
     create_batches (map Seq chunks) batch_size sequence_length pad_index =
       Inr (x_batches, y_batches, y_window_batches) \<and>
     concat x_batches = map (\<lambda>s. Seq (butlast s)) chunks @ replicate k pad_row \<and>
     concat y_batches = map (\<lambda>s. Seq [last s]) chunks @ replicate k (Seq [Scalar pad_index]) \<and>
     concat y_window_batches = map (\<lambda>s. Seq (tl s)) chunks @ replicate k pad_row \<and>
     length y_batches = length x_batches \<and> length y_window_batches = length x_batches \<and>
     length x_batches * nat batch_size = length chunks + k \<and>
     (\<forall>b \<in> set x_batches. int (length b) = batch_size \<and>
        (\<forall>row \<in> set b. \<exists>r. row = Seq r \<and> int (length r) = sequence_length)) \<and>
     (\<forall>b \<in> set y_batches. int (length b) = batch_size \<and>
        (\<forall>row \<in> set b. \<exists>v. row = Seq [v])) \<and>
     (\<forall>b \<in> set y_window_batches. int (length b) = batch_size \<and>
        (\<forall>row \<in> set b. \<exists>r. row = Seq r \<and> int (length r) = sequence_length))"
proof -
  let ?xs = "map (\<lambda>s. Seq (butlast s)) chunks"
  let ?ys = "map (\<lambda>s. Seq [last s]) chunks"
  let ?ws = "map (\<lambda>s. Seq (tl s)) chunks"
  let ?py = "Seq [Scalar pad_index]"
  define m where "m = length chunks mod nat batch_size"
  define gx where "gx = group_rows ?xs batch_size [] []"
  define gy where "gy = group_rows ?ys batch_size [] []"
  define gw where "gw = group_rows ?ws batch_size [] []"
  define fx where "fx = (if m \<noteq> 0 then fst gx @ [snd gx @ replicate (nat batch_size - m) pad_row] else fst gx)"
  define fy where "fy = (if m \<noteq> 0 then fst gy @ [snd gy @ replicate (nat batch_size - m) ?py] else fst gy)"
  define fw where "fw = (if m \<noteq> 0 then fst gw @ [snd gw @ replicate (nat batch_size - m) pad_row] else fst gw)"
  from assms(2) have pos: "0 < batch_size" by simp
  have ne: "\<forall>s \<in> set chunks. s \<noteq> []" using assms(1,3) by auto
  have loop: "sequence_loop (map Seq chunks) batch_size ([], [], [], [], [], []) =
      Inr (fst gx, fst gy, fst gw, snd gx, snd gy, snd gw)"
    unfolding gx_def gy_def gw_def by (rule sequence_loop_group [OF ne]) simp_all
  have rx: "length (snd gx) = m"
    unfolding gx_def m_def using group_rows_count(2) [OF pos, of ?xs] by simp
  have res: "create_batches (map Seq chunks) batch_size sequence_length pad_index = Inr (fx, fy, fw)"
  proof (cases "m = 0")
    case True
    with rx have "snd gx = []" by simp
    with True assms(1) loop show ?thesis
      by (simp add: create_batches_def pad_last_batch_def fx_def fy_def fw_def)
  next
    case False
    with rx have "snd gx \<noteq> []" by auto
    moreover have "nat (batch_size - int (length (snd gx))) = nat batch_size - m"
      using rx by (simp add: nat_diff_distrib')
    ultimately show ?thesis using False assms(1) loop
      by (simp add: create_batches_def pad_last_batch_def fx_def fy_def fw_def Let_def pad_row_def)
  qed
  note px = group_rows_padded [OF pos, of ?xs pad_row, simplified length_map,
      folded m_def k_def gx_def, folded fx_def]
  note py = group_rows_padded [OF pos, of ?ys ?py, simplified length_map,
      folded m_def k_def gy_def, folded fy_def]
  note pw = group_rows_padded [OF pos, of ?ws pad_row, simplified length_map,
      folded m_def k_def gw_def, folded fw_def]
  have nz: "nat batch_size \<noteq> 0" using pos by simp
  have nz: "0 < nat batch_size" using pos by simp
  have "length fy * nat batch_size = length fx * nat batch_size" using px(3) py(3) by simp
  then have ly: "length fy = length fx" using nz by simp
  have "length fw * nat batch_size = length fx * nat batch_size" using px(3) pw(3) by simp
  then have lw: "length fw = length fx" using nz by simp
  have in_concat: "row \<in> set (concat bss)" if "row \<in> set b" "b \<in> set bss" for row :: "'a pyobj" and b bss
    using that by auto
  have rows_x: "\<exists>r. row = Seq r \<and> int (length r) = sequence_length" if "row \<in> set (concat fx)" for row
  proof -
    from that have "row \<in> set ?xs \<or> row = pad_row" unfolding px(1) by auto
    then show ?thesis
    proof
      assume "row \<in> set ?xs"
      then obtain s where s: "s \<in> set chunks" "row = Seq (butlast s)" by auto
      with assms(3) have "int (length s) = sequence_length + 1" by blast
      then have "int (length (butlast s)) = sequence_length"
        using assms(1) by (cases s) auto
      with s show ?thesis by blast
    next
      assume "row = pad_row"
      with assms(1) show ?thesis by (simp add: pad_row_def)
    qed
  qed
  have rows_w: "\<exists>r. row = Seq r \<and> int (length r) = sequence_length" if "row \<in> set (concat fw)" for row
  proof -
    from that have "row \<in> set ?ws \<or> row = pad_row" unfolding pw(1) by auto
    then show ?thesis
    proof
      assume "row \<in> set ?ws"
      then obtain s where s: "s \<in> set chunks" "row = Seq (tl s)" by auto
      with assms(3) have "int (length s) = sequence_length + 1" by blast
      then have "int (length (tl s)) = sequence_length"
        using assms(1) by (cases s) auto
      with s show ?thesis by blast
    next
      assume "row = pad_row"
      with assms(1) show ?thesis by (simp add: pad_row_def)
    qed
  qed
  have rows_y: "\<exists>v. row = Seq [v]" if "row \<in> set (concat fy)" for row
  proof -
    from that have "row \<in> set ?ys \<or> row = ?py" unfolding py(1) by auto
    then show ?thesis by auto
  qed
  show ?thesis
  proof (intro exI conjI)
    show "create_batches (map Seq chunks) batch_size sequence_length pad_index = Inr (fx, fy, fw)"
      by (rule res)
    show "concat fx = ?xs @ replicate k pad_row" by (rule px(1))
    show "concat fy = ?ys @ replicate k ?py" by (rule py(1))
    show "concat fw = ?ws @ replicate k pad_row" by (rule pw(1))
    show "length fy = length fx" by (rule ly)
    show "length fw = length fx" by (rule lw)
    show "length fx * nat batch_size = length chunks + k" by (rule px(3))
    show "\<forall>b \<in> set fx. int (length b) = batch_size \<and>
        (\<forall>row \<in> set b. \<exists>r. row = Seq r \<and> int (length r) = sequence_length)"
      using px(2) rows_x in_concat by blast
    show "\<forall>b \<in> set fy. int (length b) = batch_size \<and> (\<forall>row \<in> set b. \<exists>v. row = Seq [v])"
      using py(2) rows_y in_concat by blast
    show "\<forall>b \<in> set fw. int (length b) = batch_size \<and>
        (\<forall>row \<in> set b. \<exists>r. row = Seq r \<and> int (length r) = sequence_length)"
      using pw(2) rows_w in_concat by blast
  qed
qed

theorem create_batches_general_witness:
  "(1::int) < 2 \<and> (1::int) \<le> 3 \<and>
   create_batches (map Seq
       [[Scalar 1, Scalar 2, Scalar 3], [Scalar 2, Scalar 3, Scalar 4],
        [Scalar 3, Scalar 4, Scalar 5], [Scalar 4, Scalar 5, Scalar 6],
        [Scalar 5, Scalar 6, Scalar 7]]) 3 2 (0::int) =
     Inr ([[Seq [Scalar 1, Scalar 2], Seq [Scalar 2, Scalar 3], Seq [Scalar 3, Scalar 4]],
           [Seq [Scalar 4, Scalar 5], Seq [Scalar 5, Scalar 6], Seq [Scalar 0, Scalar 0]]],
          [[Seq [Scalar 3], Seq [Scalar 4], Seq [Scalar 5]],
           [Seq [Scalar 6], Seq [Scalar 7], Seq [Scalar 0]]],
          [[Seq [Scalar 2, Scalar 3], Seq [Scalar 3, Scalar 4], Seq [Scalar 4, Scalar 5]],
           [Seq [Scalar 5, Scalar 6], Seq [Scalar 6, Scalar 7], Seq [Scalar 0, Scalar 0]]])"
proof -
  let ?chunks = "[[Scalar 1, Scalar 2, Scalar 3], [Scalar 2, Scalar 3, Scalar 4],
        [Scalar 3, Scalar 4, Scalar 5], [Scalar 4, Scalar 5, Scalar 6],
        [Scalar 5, Scalar 6, Scalar (7::int)]]"
  have h1: "(1::int) < 2" and h2: "(1::int) \<le> 3" by simp_all
  have h3: "\<forall>s \<in> set ?chunks. int (length s) = 2 + 1" by simp
  from create_batches_general [OF h1 h2 h3, of 0]
  obtain x_batches y_batches y_window_batches where
    "create_batches (map Seq ?chunks) 3 2 0 = Inr (x_batches, y_batches, y_window_batches)"
    by blast
  then show ?thesis
    by (simp add: create_batches_def pad_last_batch_def Let_def eval_nat_numeral)
qed

text \<open>
  C7 as stated, for every batch size, fails at \<open>batch_size = 0\<close>: the length of the
  current batch never equals 0 and the padding loop does not run, so all rows end up in
  one batch (here of one row, not of \<open>batch_size = 0\<close> rows).
\<close>

theorem create_batches_general_counterexample:
  "create_batches [Seq [Scalar 1, Scalar 2, Scalar 3]] 0 2 (0::int) =
     Inr ([[Seq [Scalar 1, Scalar 2]]], [[Seq [Scalar 3]]], [[Seq [Scalar 2, Scalar 3]]])"
  by (simp add: create_batches_def pad_last_batch_def Let_def)

section \<open>Properties of the CorpusAggregator\<close>

text \<open>
  C3 says that \<open>num_types\<close> always equals the number of keys of \<open>type_freq_dict\<close>
  (the length of \<open>type_list\<close>). \<open>add_document\<close> recomputes \<open>type_list\<close> from the merged
  table but adds the document's own number of types to \<open>num_types\<close>, so a type that
  occurs in two documents is counted twice: after adding the one-token document \<open>a\<close>
  twice, the table has the single key \<open>a\<close> and \<open>num_types\<close> is 2.
\<close>

theorem add_document_num_types_shared_type:
  "num_types (add_document (add_document init_corpus [[''a'']] None) [[''a'']] None) = 2 \<and>
   type_freq_dict (add_document (add_document init_corpus [[''a'']] None) [[''a'']] None) =
     [(''a'', 2)] \<and>
   type_list (add_document (add_document init_corpus [[''a'']] None) [[''a'']] None) = [''a'']"
  by (simp add: add_document_def Document_def counter_iadd_def counter_get_def init_corpus_def
      Let_def)

section \<open>Properties of the VocabularyBuilder\<close>

lemma vocab_map_Nil: "vocab_map [] = Map.empty"
  by (simp add: vocab_map_def)

lemma vocab_map_snoc: "vocab_map (L @ [t]) = (vocab_map L)(t \<mapsto> int (length L))"
  by (simp add: vocab_map_def)

lemma dom_vocab_map: "dom (vocab_map L) = set L"
proof -
  have "map fst (zip L (map int [0 ..< length L])) = L"
    by (rule map_fst_zip) simp
  then have "set L = fst ` set (zip L (map int [0 ..< length L]))"
    by (metis set_map)
  then show ?thesis
    by (simp add: vocab_map_def dom_map_of_conv_image_fst)
qed

lemma vocab_map_None: "vocab_map L t = None \<longleftrightarrow> t \<notin> set L"
  using dom_vocab_map [of L] by blast

lemma vocab_map_nth: "distinct L \<Longrightarrow> i < length L \<Longrightarrow> vocab_map L (L ! i) = Some (int i)"
proof (induction L rule: rev_induct)
  case Nil
  then show ?case by simp
next
  case (snoc t L)
  show ?case
  proof (cases "i < length L")
    case True
    with snoc.prems have "L ! i \<noteq> t" by (auto simp: nth_mem)
    with True snoc show ?thesis by (simp add: vocab_map_snoc nth_append)
  next
    case False
    with snoc.prems have "i = length L" by simp
    then show ?thesis by (simp add: vocab_map_snoc)
  qed
qed

lemma with_vocab_Nil:
  "c\<lparr>vocab_list := Some [], vocab_index_dict := Some Map.empty, vocab_size := Some 0\<rparr> = with_vocab c []"
  by (simp add: with_vocab_def vocab_map_Nil)

lemma add_token_with_vocab: "add_token_to_vocab (with_vocab c L) t = Inr (with_vocab c (L @ [t]))"
  by (simp add: add_token_to_vocab_def with_vocab_def vocab_map_snoc)

lemma include_loop_with_vocab:
  "include_loop ts (with_vocab c L) f miss =
     (case include_tokens ts f of (a, f', m) \<Rightarrow> Inr (with_vocab c (L @ a), f', miss @ m))"
proof (induction ts arbitrary: L f miss)
  case Nil
  show ?case by simp
next
  case (Cons t ts)
  show ?case
  proof (cases "t \<in> set (map fst f)")
    case True
    then show ?thesis
      using Cons.IH [of "L @ [t]" "AList.delete t f" miss]
      by (simp add: add_token_with_vocab split: prod.splits)
  next
    case False
    then show ?thesis
      using Cons.IH [of L f "miss @ [t]"]
      by (simp split: prod.splits)
  qed
qed

lemma fill_loop_with_vocab:
  "fill_loop ts target (with_vocab c L) = Inr (with_vocab c (fill_tokens ts target L))"
proof (induction ts arbitrary: L)
  case Nil
  show ?case by simp
next
  case (Cons t ts)
  have sel: "vocab_size (with_vocab c L) = Some (int (length L))"
    "vocab_index_dict (with_vocab c L) = Some (vocab_map L)"
    by (simp_all add: with_vocab_def)
  show ?case
    using Cons.IH [of "L @ [t]"] Cons.IH [of L]
    by (simp add: sel vocab_map_None add_token_with_vocab)
qed

lemma with_vocab_sel [simp]:
  "vocab_list (with_vocab c L) = Some L"
  "vocab_index_dict (with_vocab c L) = Some (vocab_map L)"
  "vocab_size (with_vocab c L) = Some (int (length L))"
  "type_freq_dict (with_vocab c L) = type_freq_dict c"
  "unknown_token (with_vocab c L) = unknown_token c"
  by (simp_all add: with_vocab_def)

lemma with_vocab_unknown:
  "(with_vocab c L)\<lparr>unknown_token := w\<rparr> = with_vocab (c\<lparr>unknown_token := w\<rparr>) L"
  by (simp add: with_vocab_def)

lemma with_vocab_same_unknown: "unknown_token c = w \<Longrightarrow> c\<lparr>unknown_token := w\<rparr> = c"
  by auto

lemma create_vocab_unknown_step:
  fixes c :: corpus and include_unknown :: bool
  defines "c' \<equiv> (if include_unknown then set_unknown_token (with_vocab c []) ''<UNK>'' else with_vocab c [])"
  shows "c' = with_vocab (c\<lparr>unknown_token := unknown_after (type_freq_dict c) (unknown_token c) include_unknown\<rparr>) []"
    and "(if include_unknown
          then (case unknown_token c' of None \<Rightarrow> Inl TypeError | Some w \<Rightarrow> add_token_to_vocab c' w)
          else Inr c') =
         Inr (with_vocab (c\<lparr>unknown_token := unknown_after (type_freq_dict c) (unknown_token c) include_unknown\<rparr>)
           (case unknown_after (type_freq_dict c) (unknown_token c) include_unknown of
              Some w \<Rightarrow> if include_unknown then [w] else [] | None \<Rightarrow> []))"
proof -
  show 1: "c' = with_vocab (c\<lparr>unknown_token := unknown_after (type_freq_dict c) (unknown_token c) include_unknown\<rparr>) []"
    unfolding c'_def
    by (cases "unknown_token c")
       (simp_all add: set_unknown_token_def unknown_after_def with_vocab_unknown with_vocab_same_unknown)
  show "(if include_unknown
          then (case unknown_token c' of None \<Rightarrow> Inl TypeError | Some w \<Rightarrow> add_token_to_vocab c' w)
          else Inr c') =
         Inr (with_vocab (c\<lparr>unknown_token := unknown_after (type_freq_dict c) (unknown_token c) include_unknown\<rparr>)
           (case unknown_after (type_freq_dict c) (unknown_token c) include_unknown of
              Some w \<Rightarrow> if include_unknown then [w] else [] | None \<Rightarrow> []))"
    unfolding 1
    by (cases "unknown_token c")
       (simp_all add: unknown_after_def add_token_with_vocab split: option.splits)
qed


lemma create_vocab_normal_form:
  "create_vocab c v incl excl unk =
     (fst (vocab_result (type_freq_dict c) (unknown_token c) v incl excl unk),
      with_vocab (c\<lparr>unknown_token := unknown_after (type_freq_dict c) (unknown_token c) unk\<rparr>)
        (snd (vocab_result (type_freq_dict c) (unknown_token c) v incl excl unk)))"
proof -
  let ?d = "type_freq_dict c"
  let ?U = "unknown_after ?d (unknown_token c) unk"
  let ?c = "c\<lparr>unknown_token := ?U\<rparr>"
  let ?L0 = "case ?U of Some w \<Rightarrow> if unk then [w] else [] | None \<Rightarrow> []"
  let ?f = "fold AList.delete excl ?d"
  have tgt: "(case v of None \<Rightarrow> if unk then int (length (type_freq_dict (with_vocab c []))) + 1
                 else int (length (type_freq_dict (with_vocab c []))) | Some n \<Rightarrow> n) =
      target_size ?d v unk"
    by (cases v) (simp_all add: target_size_def)
  have d: "type_freq_dict (with_vocab ?c ?L0) = ?d" by simp
  have step: "create_vocab c v incl excl unk =
     (if length ?f = 0 then (Inl ValueError, with_vocab ?c ?L0)
      else (case include_loop incl (with_vocab ?c ?L0) ?f [] of
              Inl e \<Rightarrow> (Inl e, with_vocab ?c ?L0)
            | Inr (self, filtered_freq_dict, missing_word_list) \<Rightarrow>
                (case vocab_size self of
                   None \<Rightarrow> (Inl TypeError, self)
                 | Some vs \<Rightarrow>
                     if vs < target_size ?d v unk then
                       (case fill_loop (sorted_tokens filtered_freq_dict) (target_size ?d v unk) self of
                          Inl e \<Rightarrow> (Inl e, self)
                        | Inr self \<Rightarrow> (Inr missing_word_list, self))
                     else (Inr missing_word_list, self))))"
    by (simp only: create_vocab_def Let_def with_vocab_Nil tgt create_vocab_unknown_step(2)
        sum.case d)
  show ?thesis
    unfolding step
    by (simp add: vocab_result_def include_loop_with_vocab fill_loop_with_vocab Let_def
        split: prod.splits)
qed

lemma fold_delete_filter: "fold AList.delete excl d = filter (\<lambda>p. fst p \<notin> set excl) d"
proof (induction excl arbitrary: d)
  case Nil
  show ?case by simp
next
  case (Cons k ks)
  have "AList.delete k d = filter (\<lambda>p. fst p \<noteq> k) d"
    by (induction d) (auto simp: AList.delete_eq)
  then show ?case by (simp add: Cons.IH)
qed

lemma filtered_empty: "fold AList.delete excl d = [] \<longleftrightarrow> set (map fst d) \<subseteq> set excl"
  by (auto simp: fold_delete_filter filter_empty_conv)

text \<open>
  C10. \<open>create_vocab\<close> raises \<open>ValueError\<close> whenever every key of the frequency table
  is in the exclusion list (the filtered table is empty), and
  \<open>create_windowed_index_list\<close> raises \<open>ValueError\<close> whenever \<open>window_size\<close> is 0.
\<close>

theorem configuration_errors:
  "(set (map fst (type_freq_dict c)) \<subseteq> set exclude_list \<longrightarrow>
      fst (create_vocab c vocab_size_arg include_list exclude_list include_unknown) = Inl ValueError) \<and>
   create_windowed_index_list index_list 0 direction pad_index = Inl ValueError"
proof (intro conjI impI)
  assume "set (map fst (type_freq_dict c)) \<subseteq> set exclude_list"
  then have "fold AList.delete exclude_list (type_freq_dict c) = []"
    by (simp only: filtered_empty)
  then show "fst (create_vocab c vocab_size_arg include_list exclude_list include_unknown) = Inl ValueError"
    by (simp add: create_vocab_normal_form vocab_result_def Let_def)
next
  show "create_windowed_index_list index_list 0 direction pad_index = Inl ValueError"
    by (simp add: create_windowed_index_list_def)
qed

theorem configuration_errors_witness:
  "fst (create_vocab (init_corpus\<lparr>type_freq_dict := [(''a'', 2), (''b'', 1)]\<rparr>)
         None [] [''b'', ''a''] True) = Inl ValueError \<and>
   create_windowed_index_list [1, 2, 3] 0 ''both'' (0::int) = Inl ValueError"
  using configuration_errors [of "init_corpus\<lparr>type_freq_dict := [(''a'', 2), (''b'', 1)]\<rparr>"
      "[''b'', ''a'']" None "[]" True "[1, 2, 3]" "''both''" "0::int"]
  by simp

text \<open>
  C4 (amended). A call of \<open>create_vocab\<close> overwrites the vocabulary list, the index
  dictionary and the vocabulary size: its result and the vocabulary state it leaves
  depend only on the arguments, the frequency table and the unknown token that an
  earlier call may have resolved (a resolved unknown token is kept and never resolved
  again), not on a previously built vocabulary. In particular, when no unknown token
  was resolved before, the state is the one the same call produces on the same corpus
  with no previously built vocabulary.
\<close>

theorem create_vocab_resets_vocabulary:
  "type_freq_dict c1 = type_freq_dict c2 \<and> unknown_token c1 = unknown_token c2 \<longrightarrow>
   fst (create_vocab c1 v incl excl unk) = fst (create_vocab c2 v incl excl unk) \<and>
   vocab_list (snd (create_vocab c1 v incl excl unk)) =
     vocab_list (snd (create_vocab c2 v incl excl unk)) \<and>
   vocab_index_dict (snd (create_vocab c1 v incl excl unk)) =
     vocab_index_dict (snd (create_vocab c2 v incl excl unk)) \<and>
   vocab_size (snd (create_vocab c1 v incl excl unk)) =
     vocab_size (snd (create_vocab c2 v incl excl unk)) \<and>
   unknown_token (snd (create_vocab c1 v incl excl unk)) =
     unknown_token (snd (create_vocab c2 v incl excl unk))"
  by (simp add: create_vocab_normal_form)

theorem create_vocab_resets_vocabulary_witness:
  "vocab_list (snd (create_vocab
       (init_corpus\<lparr>type_freq_dict := [(''a'', 2), (''b'', 1)], vocab_size := Some 1,
          vocab_list := Some [''zzz''], vocab_index_dict := Some [''zzz'' \<mapsto> 0]\<rparr>)
       None [] [] True)) =
   vocab_list (snd (create_vocab (init_corpus\<lparr>type_freq_dict := [(''a'', 2), (''b'', 1)]\<rparr>)
       None [] [] True))"
  using create_vocab_resets_vocabulary
    [of "init_corpus\<lparr>type_freq_dict := [(''a'', 2), (''b'', 1)], vocab_size := Some 1,
          vocab_list := Some [''zzz''], vocab_index_dict := Some [''zzz'' \<mapsto> 0]\<rparr>"
        "init_corpus\<lparr>type_freq_dict := [(''a'', 2), (''b'', 1)]\<rparr>" None "[]" "[]" True]
  by (simp add: init_corpus_def)

text \<open>
  C4 as stated fails: the unknown token resolved by an earlier build survives. A corpus
  with the document \<open>a\<close> is built, the document \<open><UNK>\<close> is added and the vocabulary is
  rebuilt: the stale unknown token \<open><UNK>\<close> is kept, although it is now a type of the
  corpus. The same documents and the same call without the earlier build resolve
  \<open><<UNK>>\<close> and give another vocabulary.
\<close>

theorem create_vocab_stale_unknown_counterexample:
  "vocab_list (snd (create_vocab
       (add_document
          (snd (create_vocab (add_document init_corpus [[''a'']] None) None [] [] True))
          [[''<UNK>'']] None)
       None [] [] True)) = Some [''<UNK>'', ''a''] \<and>
   vocab_list (snd (create_vocab
       (add_document (add_document init_corpus [[''a'']] None) [[''<UNK>'']] None)
       None [] [] True)) = Some [''<<UNK>>'', ''<UNK>'', ''a'']"
  by (simp add: create_vocab_def add_document_def Document_def counter_iadd_def counter_get_def
      init_corpus_def set_unknown_token_def add_token_to_vocab_def sorted_tokens_def Let_def
      less_eq_char_def less_char_def)

lemma fill_tokens_take:
  "distinct ts \<Longrightarrow>
   fill_tokens ts target L = L @ take (nat (target - int (length L))) (filter (\<lambda>t. t \<notin> set L) ts)"
proof (induction ts arbitrary: L)
  case Nil
  show ?case by simp
next
  case (Cons t ts)
  from Cons.prems have d: "distinct ts" and nt: "t \<notin> set ts" by simp_all
  show ?case
  proof (cases "target \<le> int (length L)")
    case True
    then show ?thesis by simp
  next
    case False
    show ?thesis
    proof (cases "t \<in> set L")
      case True
      with False Cons.IH [OF d, of L] show ?thesis by simp
    next
      case notin: False
      have same: "filter (\<lambda>s. s \<notin> set (L @ [t])) ts = filter (\<lambda>s. s \<notin> set L) ts"
        using nt by (intro filter_cong) auto
      have "nat (target - int (length L)) = Suc (nat (target - int (length (L @ [t]))))"
        using False by simp
      with False notin Cons.IH [OF d, of "L @ [t]"] same show ?thesis by simp
    qed
  qed
qed

lemma sorted_tokens_props:
  "set (sorted_tokens f) = set (map fst f)"
  "length (sorted_tokens f) = length f"
  "distinct (map fst f) \<Longrightarrow> distinct (sorted_tokens f)"
  by (simp_all add: sorted_tokens_def)

lemma length_filter_neq:
  "distinct ts \<Longrightarrow> length ts \<le> Suc (length (filter (\<lambda>t. t \<noteq> w) ts))"
proof (cases "w \<in> set ts")
  case False
  then have "filter (\<lambda>t. t \<noteq> w) ts = ts" by (simp add: filter_id_conv) blast
  then show ?thesis by simp
next
  case True
  assume "distinct ts"
  then have "length (filter (\<lambda>t. t = w) ts) \<le> 1"
    by (induction ts) (auto simp: filter_empty_conv)
  moreover have "length (filter (\<lambda>t. t = w) ts) + length (filter (\<lambda>t. \<not> t = w) ts) = length ts"
    by (rule sum_length_filter_compl)
  ultimately show ?thesis by simp
qed

lemma explicit_size_list:
  fixes d :: counter and u :: "string option" and n :: int and unk :: bool
  assumes dist: "distinct (map fst d)" and ne: "d \<noteq> []"
    and n0: "0 \<le> n" and n1: "n \<le> int (length d)"
  defines "L \<equiv> snd (vocab_result d u (Some n) [] [] unk)"
  shows "fst (vocab_result d u (Some n) [] [] unk) = Inr []"
    and "int (length L) = (if unk then max 1 n else n)"
    and "distinct L"
    and "unk \<Longrightarrow> \<exists>w. unknown_after d u unk = Some w \<and> L ! 0 = w"
proof -
  let ?S = "sorted_tokens d"
  have S: "distinct ?S" "length ?S = length d"
    using dist by (simp_all add: sorted_tokens_props)
  show "fst (vocab_result d u (Some n) [] [] unk) = Inr []"
    using ne by (simp add: vocab_result_def Let_def)
  show "int (length L) = (if unk then max 1 n else n)"
    and "distinct L"
    and "unk \<Longrightarrow> \<exists>w. unknown_after d u unk = Some w \<and> L ! 0 = w"
  proof (atomize (full), cases unk)
    case True
    then obtain w where w: "unknown_after d u unk = Some w"
      by (cases u) (simp_all add: unknown_after_def)
    show "(int (length L) = (if unk then max 1 n else n)) \<and> distinct L \<and>
        (unk \<longrightarrow> (\<exists>w. unknown_after d u unk = Some w \<and> L ! 0 = w))"
    proof (cases "1 < n")
      case big: True
      let ?F = "filter (\<lambda>t. t \<notin> set [w]) ?S"
      have L: "L = [w] @ take (nat (n - 1)) ?F"
        using ne True w big S(1)
        by (simp add: L_def vocab_result_def Let_def target_size_def fill_tokens_take)
      have "?F = filter (\<lambda>t. t \<noteq> w) ?S" by simp
      with length_filter_neq [OF S(1), of w] S(2) have "length d \<le> Suc (length ?F)" by simp
      with n1 have "nat (n - 1) \<le> length ?F" by linarith
      then have "length (take (nat (n - 1)) ?F) = nat (n - 1)" by simp
      with big have len: "int (length L) = n" unfolding L by simp
      have "w \<notin> set ?F" by simp
      then have "w \<notin> set (take (nat (n - 1)) ?F)" by (meson in_set_takeD)
      moreover have "distinct (take (nat (n - 1)) ?F)" using S(1) by simp
      ultimately have "distinct L" unfolding L by simp
      moreover have "L ! 0 = w" unfolding L by simp
      ultimately show ?thesis using len big True w by simp
    next
      case False
      then have "L = [w]"
        using ne True w by (simp add: L_def vocab_result_def Let_def target_size_def)
      with False True w show ?thesis by simp
    qed
  next
    case False
    show "(int (length L) = (if unk then max 1 n else n)) \<and> distinct L \<and>
        (unk \<longrightarrow> (\<exists>w. unknown_after d u unk = Some w \<and> L ! 0 = w))"
    proof (cases "0 < n")
      case pos: True
      have "L = take (nat n) ?S"
        using ne False pos S(1)
        by (cases "unknown_after d u False")
           (simp_all add: L_def vocab_result_def Let_def target_size_def fill_tokens_take)
      with S n1 pos False show ?thesis by simp
    next
      case zero: False
      have "L = []"
        using ne False zero
        by (cases "unknown_after d u False")
           (simp_all add: L_def vocab_result_def Let_def target_size_def)
      with zero n0 False show ?thesis by simp
    qed
  qed
qed

text \<open>
  C1 (amended). For a non-empty frequency table, an explicit target size \<open>n\<close> between 0
  and the number of distinct types, and empty include and exclude lists, \<open>create_vocab\<close>
  returns an empty list of missing words and builds a vocabulary of exactly \<open>n\<close>
  entries when \<open>include_unknown\<close> is false, and of exactly \<open>max 1 n\<close> entries when it is
  true: the unknown token is the entry at index 0 and counts towards the target size,
  it is not an additional entry. The vocabulary size is the length of the list, the
  entries are distinct, and the index dictionary maps the entry at position \<open>i\<close> to \<open>i\<close>
  and nothing else, so the indices are \<open>0 .. size - 1\<close> without gaps or duplicates.
\<close>

theorem create_vocab_explicit_size:
  assumes "distinct (map fst (type_freq_dict c))" and "type_freq_dict c \<noteq> []"
    and "0 \<le> n" and "n \<le> int (length (type_freq_dict c))"
  shows "fst (create_vocab c (Some n) [] [] include_unknown) = Inr [] \<and>
    (\<exists>L m. vocab_list (snd (create_vocab c (Some n) [] [] include_unknown)) = Some L \<and>
       vocab_index_dict (snd (create_vocab c (Some n) [] [] include_unknown)) = Some m \<and>
       vocab_size (snd (create_vocab c (Some n) [] [] include_unknown)) = Some (int (length L)) \<and>
       int (length L) = (if include_unknown then max 1 n else n) \<and>
       (include_unknown \<longrightarrow>
          unknown_token (snd (create_vocab c (Some n) [] [] include_unknown)) = Some (L ! 0)) \<and>
       distinct L \<and> dom m = set L \<and> (\<forall>i < length L. m (L ! i) = Some (int i)))"
proof -
  let ?d = "type_freq_dict c" and ?u = "unknown_token c"
  let ?L = "snd (vocab_result ?d ?u (Some n) [] [] include_unknown)"
  note props = explicit_size_list [OF assms, where u = ?u and unk = include_unknown]
  have res: "fst (create_vocab c (Some n) [] [] include_unknown) = Inr []"
    using props(1) by (simp add: create_vocab_normal_form)
  have unk: "include_unknown \<longrightarrow>
      unknown_token (snd (create_vocab c (Some n) [] [] include_unknown)) = Some (?L ! 0)"
    using props(4) by (auto simp: create_vocab_normal_form)
  have idx: "\<forall>i < length ?L. vocab_map ?L (?L ! i) = Some (int i)"
    using vocab_map_nth [OF props(3)] by blast
  show ?thesis
    apply (rule conjI [OF res])
    apply (rule exI [of _ ?L])
    apply (rule exI [of _ "vocab_map ?L"])
    using props(2,3) unk idx
    apply (simp add: create_vocab_normal_form dom_vocab_map)
    done
qed

theorem create_vocab_explicit_size_witness:
  "distinct (map fst [(''a'', 2), (''b'', 1), (''c'', 5::int)]) \<and>
   (0::int) \<le> 2 \<and> (2::int) \<le> int (length [(''a'', 2), (''b'', 1), (''c'', 5::int)]) \<and>
   fst (create_vocab (init_corpus\<lparr>type_freq_dict := [(''a'', 2), (''b'', 1), (''c'', 5)]\<rparr>)
         (Some 2) [] [] False) = Inr [] \<and>
   vocab_list (snd (create_vocab (init_corpus\<lparr>type_freq_dict := [(''a'', 2), (''b'', 1), (''c'', 5)]\<rparr>)
         (Some 2) [] [] False)) = Some [''c'', ''a'']"
proof -
  let ?c = "init_corpus\<lparr>type_freq_dict := [(''a'', 2), (''b'', 1), (''c'', 5)]\<rparr>"
  have h1: "distinct (map fst (type_freq_dict ?c))" by simp
  have h2: "type_freq_dict ?c \<noteq> []" by simp
  have h3: "(0::int) \<le> 2" by simp
  have h4: "(2::int) \<le> int (length (type_freq_dict ?c))" by simp
  from create_vocab_explicit_size [OF h1 h2 h3 h4, of False]
  have r: "fst (create_vocab ?c (Some 2) [] [] False) = Inr []" by blast
  have v: "vocab_list (snd (create_vocab ?c (Some 2) [] [] False)) = Some [''c'', ''a'']"
    by (simp add: create_vocab_def init_corpus_def add_token_to_vocab_def sorted_tokens_def
        counter_get_def Let_def)
  from r v show ?thesis by simp
qed

text \<open>
  C1 as stated (target size plus one entry for the unknown token) fails: with two types,
  target size 2 and \<open>include_unknown\<close>, the vocabulary has 2 entries, the unknown token
  and the most frequent type, not 3.
\<close>

theorem create_vocab_explicit_size_counterexample:
  "vocab_list (snd (create_vocab (init_corpus\<lparr>type_freq_dict := [(''a'', 2), (''b'', 1)]\<rparr>)
       (Some 2) [] [] True)) = Some [''<UNK>'', ''a''] \<and>
   vocab_size (snd (create_vocab (init_corpus\<lparr>type_freq_dict := [(''a'', 2), (''b'', 1)]\<rparr>)
       (Some 2) [] [] True)) = Some 2"
  by (simp add: create_vocab_def init_corpus_def set_unknown_token_def add_token_to_vocab_def
      sorted_tokens_def counter_get_def Let_def)

lemma delete_filter: "AList.delete k f = filter (\<lambda>p. fst p \<noteq> k) f"
  by (induction f) (auto simp: AList.delete_eq)

lemma include_tokens_props:
  "include_tokens incl f = (a, f', m) \<Longrightarrow>
   f' = filter (\<lambda>p. fst p \<notin> set incl) f \<and> set a \<subseteq> set incl"
proof (induction incl arbitrary: f a m)
  case Nil
  then show ?case by simp
next
  case (Cons t ts)
  show ?case
  proof (cases "t \<in> set (map fst f)")
    case True
    with Cons.prems obtain a' where r: "include_tokens ts (AList.delete t f) = (a', f', m)"
      and a: "a = t # a'"
      by (auto split: prod.splits)
    from Cons.IH [OF r] a show ?thesis
      by (auto simp: delete_filter intro: filter_cong)
  next
    case False
    with Cons.prems obtain m' where r: "include_tokens ts f = (a, f', m')"
      by (auto split: prod.splits)
    have "filter (\<lambda>p. fst p \<notin> set (t # ts)) f = filter (\<lambda>p. fst p \<notin> set ts) f"
      using False by (intro filter_cong) auto
    with Cons.IH [OF r] show ?thesis by auto
  qed
qed

lemma counter_get_filter:
  "P t \<Longrightarrow> counter_get (filter (\<lambda>p. P (fst p)) d) t = counter_get d t"
  by (induction d) (auto simp: counter_get_def)

lemma sorted_wrt_distinct:
  "sorted_wrt P xs \<Longrightarrow> distinct xs \<Longrightarrow> sorted_wrt (\<lambda>x y. P x y \<and> x \<noteq> y) xs"
  by (induction xs) auto

lemma key_le_ranks:
  fixes s t :: string and cs ct :: int
  assumes "(- cs, s) \<le> (- ct, t)" "s \<noteq> t"
  shows "ct < cs \<or> (cs = ct \<and> s < t)"
  using assms by (auto simp: less_eq_prod_def)

lemma sorted_tokens_ranked:
  assumes "distinct (map fst f)"
  shows "sorted_wrt (ranks_before f) (sorted_tokens f)"
proof -
  let ?key = "\<lambda>w. (- counter_get f w, w)"
  have "sorted (map ?key (sorted_tokens f))"
    unfolding sorted_tokens_def by (rule sorted_sort_key)
  then have "sorted_wrt (\<lambda>x y. ?key x \<le> ?key y) (sorted_tokens f)"
    by (simp only: sorted_map)
  moreover have "distinct (sorted_tokens f)"
    using assms by (simp add: sorted_tokens_props)
  ultimately have "sorted_wrt (\<lambda>x y. ?key x \<le> ?key y \<and> x \<noteq> y) (sorted_tokens f)"
    by (rule sorted_wrt_distinct)
  then show ?thesis
  proof (rule sorted_wrt_mono_rel [rotated])
    fix x y assume "?key x \<le> ?key y \<and> x \<noteq> y"
    then show "ranks_before f x y"
      unfolding ranks_before_def using key_le_ranks by blast
  qed
qed

lemma sorted_wrt_take_drop:
  assumes "sorted_wrt P xs" "s \<in> set (take k xs)" "t \<in> set xs - set (take k xs)"
  shows "P s t"
proof -
  from assms(3) have "t \<in> set (drop k xs)"
    by (metis DiffE UnE append_take_drop_id set_append)
  moreover from assms(1) have "sorted_wrt P (take k xs @ drop k xs)" by simp
  ultimately show ?thesis using assms(2) by (auto simp only: sorted_wrt_append)
qed

lemma vocab_result_fill:
  fixes d :: counter and u :: "string option" and v :: "int option"
    and incl excl :: "string list" and unk :: bool
  assumes dist: "distinct (map fst d)"
    and ok: "fst (vocab_result d u v incl excl unk) = Inr missing"
  defines "UU \<equiv> (if unk then set_option (unknown_after d u unk) else {})"
  defines "R \<equiv> set (map fst d) - set excl - set incl - UU"
  shows "\<exists>pre fill. snd (vocab_result d u v incl excl unk) = pre @ fill \<and>
      set pre \<subseteq> set incl \<union> UU \<and> set fill \<subseteq> R \<and>
      sorted_wrt (ranks_before d) fill \<and>
      (\<forall>s \<in> set fill. \<forall>t \<in> R - set fill. ranks_before d s t) \<and>
      length fill = min (card R) (nat (target_size d v unk - int (length pre)))"
proof -
  let ?T = "target_size d v unk"
  define f where "f = fold AList.delete excl d"
  define L0 where "L0 = (case unknown_after d u unk of
      Some w \<Rightarrow> if unk then [w] else [] | None \<Rightarrow> [])"
  obtain a f' m where inc: "include_tokens incl f = (a, f', m)"
    by (metis prod_cases3)
  define pre where "pre = L0 @ a"
  define S where "S = sorted_tokens f'"
  define F where "F = filter (\<lambda>t. t \<notin> set pre) S"
  define k where "k = nat (?T - int (length pre))"
  have f: "f = filter (\<lambda>p. fst p \<notin> set excl) d"
    unfolding f_def by (rule fold_delete_filter)
  from include_tokens_props [OF inc]
  have f': "f' = filter (\<lambda>p. fst p \<notin> set incl) f" and a: "set a \<subseteq> set incl" by simp_all
  have ne: "f \<noteq> []"
    using ok by (auto simp: vocab_result_def f_def Let_def)
  have keys: "set (map fst f') = set (map fst d) - set excl - set incl"
    unfolding f' f by auto
  have dist': "distinct (map fst f')"
    unfolding f' f using dist by (simp add: distinct_map_filter)
  have S: "distinct S" "set S = set (map fst f')" "sorted_wrt (ranks_before f') S"
    unfolding S_def using dist' by (simp_all add: sorted_tokens_props sorted_tokens_ranked)
  have L0: "set L0 = UU"
    unfolding L0_def UU_def by (cases unk; cases "unknown_after d u unk") simp_all
  have pre: "set pre \<subseteq> set incl \<union> UU"
    unfolding pre_def using a L0 by auto
  have setF: "set F = R"
    unfolding F_def R_def pre_def using S(2) keys a L0 by auto
  have distF: "distinct F" unfolding F_def using S(1) by simp
  have same: "counter_get f' x = counter_get d x" if "x \<in> set S" for x
  proof -
    from that S(2) keys have "x \<notin> set incl" "x \<notin> set excl" by auto
    then have "(\<lambda>t. t \<notin> set excl \<and> t \<notin> set incl) x" by simp
    then have "counter_get (filter (\<lambda>p. (\<lambda>t. t \<notin> set excl \<and> t \<notin> set incl) (fst p)) d) x =
        counter_get d x"
      by (rule counter_get_filter)
    then show ?thesis unfolding f' f by simp
  qed
  have "sorted_wrt (\<lambda>x y. ranks_before f' x y \<and> x \<in> set S \<and> y \<in> set S) S"
    using S(3) by (simp add: sorted_wrt_iff_nth_less)
  then have "sorted_wrt (ranks_before d) S"
  proof (rule sorted_wrt_mono_rel [rotated])
    fix x y assume "ranks_before f' x y \<and> x \<in> set S \<and> y \<in> set S"
    then have r: "ranks_before f' x y" and x: "x \<in> set S" and y: "y \<in> set S" by simp_all
    from r show "ranks_before d x y"
      unfolding ranks_before_def same [OF x] same [OF y] .
  qed
  then have rankF: "sorted_wrt (ranks_before d) F"
    unfolding F_def by (rule sorted_wrt_filter)
  have L: "snd (vocab_result d u v incl excl unk) = pre @ take k F"
    unfolding F_def k_def pre_def
    using ne inc S(1)
    by (simp add: vocab_result_def Let_def f_def [symmetric] L0_def [symmetric]
        S_def [symmetric] fill_tokens_take)
  have 1: "set (take k F) \<subseteq> R" using setF by (meson set_take_subset subset_trans subset_refl)
  have 2: "sorted_wrt (ranks_before d) (take k F)" using rankF by (rule sorted_wrt_take)
  have 3: "\<forall>s \<in> set (take k F). \<forall>t \<in> R - set (take k F). ranks_before d s t"
    using sorted_wrt_take_drop [OF rankF] setF by blast
  have "card R = length F" using distF setF by (metis distinct_card)
  then have 4: "length (take k F) = min (card R) k" by simp
  show ?thesis
    apply (rule exI [of _ pre])
    apply (rule exI [of _ "take k F"])
    using L pre 1 2 3 4 unfolding k_def
    apply blast
    done
qed

lemma unknown_after_idem:
  "unknown_after d (unknown_after d u unk) unk = unknown_after d u unk"
  by (cases u) (simp_all add: unknown_after_def)

lemma vocab_result_unknown:
  "vocab_result d (unknown_after d u unk) v incl excl unk = vocab_result d u v incl excl unk"
  by (simp only: vocab_result_def unknown_after_idem)

lemma with_vocab_twice:
  "with_vocab ((with_vocab c L)\<lparr>unknown_token := w\<rparr>) L' = with_vocab (c\<lparr>unknown_token := w\<rparr>) L'"
  by (simp add: with_vocab_def)

lemma create_vocab_repeat:
  "create_vocab (snd (create_vocab c v incl excl unk)) v incl excl unk =
   create_vocab c v incl excl unk"
proof -
  let ?d = "type_freq_dict c"
  let ?U = "unknown_after ?d (unknown_token c) unk"
  let ?L = "snd (vocab_result ?d (unknown_token c) v incl excl unk)"
  let ?c' = "with_vocab (c\<lparr>unknown_token := ?U\<rparr>) ?L"
  have c': "snd (create_vocab c v incl excl unk) = ?c'"
    by (simp add: create_vocab_normal_form)
  have d: "type_freq_dict ?c' = ?d" and u: "unknown_token ?c' = ?U" by simp_all
  have "create_vocab ?c' v incl excl unk =
      (fst (vocab_result ?d ?U v incl excl unk),
       with_vocab (?c'\<lparr>unknown_token := unknown_after ?d ?U unk\<rparr>)
         (snd (vocab_result ?d ?U v incl excl unk)))"
    by (simp only: create_vocab_normal_form [of ?c'] d u)
  also have "\<dots> = (fst (vocab_result ?d (unknown_token c) v incl excl unk),
       with_vocab (c\<lparr>unknown_token := ?U\<rparr>) ?L)"
    by (simp add: vocab_result_unknown unknown_after_idem with_vocab_twice)
  also have "\<dots> = create_vocab c v incl excl unk"
    by (simp only: create_vocab_normal_form [of c])
  finally show ?thesis by (simp only: c')
qed

lemma resolve_unknown_token_fresh: "resolve_unknown_token d candidate \<notin> set (map fst d)"
proof (induction d candidate rule: resolve_unknown_token.induct)
  case (1 d candidate)
  show ?case
  proof (cases "candidate \<in> set (map fst d)")
    case True
    then have eq: "resolve_unknown_token d candidate =
        resolve_unknown_token d (''<'' @ candidate @ ''>'')"
      by (subst resolve_unknown_token.simps) (simp only: if_True)
    show ?thesis unfolding eq by (rule "1.IH" [OF True])
  next
    case False
    then have eq: "resolve_unknown_token d candidate = candidate"
      by (subst resolve_unknown_token.simps) (simp only: if_False)
    show ?thesis unfolding eq by (rule False)
  qed
qed

text \<open>
  C6 (amended). The result and the vocabulary ordering of \<open>create_vocab\<close> are determined
  by the arguments, the frequency table and the unknown token kept from an earlier build:
  two corpora that agree on these build the same ordering, and building again with the
  same arguments on the corpus that a build leaves gives the same result and corpus.
  When the build succeeds, the vocabulary list is a prefix (the unknown token, if
  requested, and the accepted tokens of the include list) followed by the frequency
  fill. The fill goes through the remaining tokens (keys of the table that are neither
  excluded nor in the include list) by descending frequency, ties broken by ascending
  lexicographic order, and inserts each one that is not the unknown token, until the
  target size is reached or these tokens are exhausted: it is ordered that way, every
  such token left out ranks after every inserted one, and its length is the smaller of
  their number and the room left below the target. A remaining token is passed over
  only when an unknown token kept from an earlier build is a type of the corpus; an
  unknown token resolved by this call is never a key of the table.
\<close>

theorem create_vocab_fill_order:
  fixes c c2 :: corpus and v :: "int option" and incl excl :: "string list" and unk :: bool
  defines "c' \<equiv> snd (create_vocab c v incl excl unk)"
  defines "UU \<equiv> (if unk then set_option (unknown_token c') else {})"
  defines "R \<equiv> set (map fst (type_freq_dict c)) - set excl - set incl"
  shows "(type_freq_dict c2 = type_freq_dict c \<and> unknown_token c2 = unknown_token c \<longrightarrow>
      fst (create_vocab c2 v incl excl unk) = fst (create_vocab c v incl excl unk) \<and>
      vocab_list (snd (create_vocab c2 v incl excl unk)) = vocab_list c') \<and>
    create_vocab c' v incl excl unk = create_vocab c v incl excl unk \<and>
    (unknown_token c = None \<longrightarrow> UU \<inter> set (map fst (type_freq_dict c)) = {}) \<and>
    (distinct (map fst (type_freq_dict c)) \<and> fst (create_vocab c v incl excl unk) = Inr missing \<longrightarrow>
      (\<exists>pre fill. vocab_list c' = Some (pre @ fill) \<and>
         set pre \<subseteq> set incl \<union> UU \<and> set fill \<subseteq> R - UU \<and>
         sorted_wrt (ranks_before (type_freq_dict c)) fill \<and>
         (\<forall>s \<in> set fill. \<forall>t \<in> R - UU - set fill. ranks_before (type_freq_dict c) s t) \<and>
         length fill =
           min (card (R - UU)) (nat (target_size (type_freq_dict c) v unk - int (length pre)))))"
proof (intro conjI impI)
  assume "type_freq_dict c2 = type_freq_dict c \<and> unknown_token c2 = unknown_token c"
  then show "fst (create_vocab c2 v incl excl unk) = fst (create_vocab c v incl excl unk)"
    and "vocab_list (snd (create_vocab c2 v incl excl unk)) = vocab_list c'"
    unfolding c'_def by (simp_all add: create_vocab_normal_form)
next
  show "create_vocab c' v incl excl unk = create_vocab c v incl excl unk"
    unfolding c'_def by (rule create_vocab_repeat)
next
  assume "unknown_token c = None"
  then have "unknown_token c' =
      (if unk then Some (resolve_unknown_token (type_freq_dict c) ''<UNK>'') else None)"
    unfolding c'_def by (simp add: create_vocab_normal_form unknown_after_def)
  then show "UU \<inter> set (map fst (type_freq_dict c)) = {}"
    unfolding UU_def using resolve_unknown_token_fresh [of "type_freq_dict c" "''<UNK>''"]
    by (cases unk) (simp_all del: resolve_unknown_token.simps)
next
  let ?d = "type_freq_dict c" and ?u = "unknown_token c"
  assume "distinct (map fst ?d) \<and> fst (create_vocab c v incl excl unk) = Inr missing"
  then have dist: "distinct (map fst ?d)"
    and ok: "fst (vocab_result ?d ?u v incl excl unk) = Inr missing"
    by (simp_all add: create_vocab_normal_form)
  have U: "unknown_token c' = unknown_after ?d ?u unk"
    and L: "vocab_list c' = Some (snd (vocab_result ?d ?u v incl excl unk))"
    unfolding c'_def by (simp_all add: create_vocab_normal_form)
  from vocab_result_fill [OF dist ok]
  show "\<exists>pre fill. vocab_list c' = Some (pre @ fill) \<and>
         set pre \<subseteq> set incl \<union> UU \<and> set fill \<subseteq> R - UU \<and>
         sorted_wrt (ranks_before ?d) fill \<and>
         (\<forall>s \<in> set fill. \<forall>t \<in> R - UU - set fill. ranks_before ?d s t) \<and>
         length fill = min (card (R - UU)) (nat (target_size ?d v unk - int (length pre)))"
    unfolding L R_def UU_def U by (simp only: option.inject)
qed

theorem create_vocab_fill_order_witness:
  "distinct (map fst [(''b'', 2), (''a'', 2), (''c'', 5), (''d'', 1::int)]) \<and>
   fst (create_vocab (init_corpus\<lparr>type_freq_dict := [(''b'', 2), (''a'', 2), (''c'', 5), (''d'', 1)]\<rparr>)
         (Some 3) [] [] True) = Inr [] \<and>
   vocab_list (snd (create_vocab
       (init_corpus\<lparr>type_freq_dict := [(''b'', 2), (''a'', 2), (''c'', 5), (''d'', 1)]\<rparr>)
         (Some 3) [] [] True)) = Some [''<UNK>'', ''c'', ''a''] \<and>
   vocab_list (snd (create_vocab
       (init_corpus\<lparr>type_freq_dict := [(''b'', 2), (''a'', 2), (''c'', 5), (''d'', 1)],
          vocab_list := Some [''zzz'']\<rparr>)
         (Some 3) [] [] True)) = Some [''<UNK>'', ''c'', ''a''] \<and>
   create_vocab (snd (create_vocab
       (init_corpus\<lparr>type_freq_dict := [(''b'', 2), (''a'', 2), (''c'', 5), (''d'', 1)]\<rparr>)
         (Some 3) [] [] True)) (Some 3) [] [] True =
   create_vocab (init_corpus\<lparr>type_freq_dict := [(''b'', 2), (''a'', 2), (''c'', 5), (''d'', 1)]\<rparr>)
         (Some 3) [] [] True \<and>
   (\<exists>pre fill. [''<UNK>'', ''c'', ''a''] = pre @ fill \<and>
      sorted_wrt (ranks_before [(''b'', 2), (''a'', 2), (''c'', 5), (''d'', 1)]) fill \<and>
      ''<UNK>'' \<notin> set fill)"
proof -
  let ?c = "init_corpus\<lparr>type_freq_dict := [(''b'', 2), (''a'', 2), (''c'', 5), (''d'', 1)]\<rparr>"
  let ?c2 = "init_corpus\<lparr>type_freq_dict := [(''b'', 2), (''a'', 2), (''c'', 5), (''d'', 1)],
          vocab_list := Some [''zzz'']\<rparr>"
  note t = create_vocab_fill_order [of ?c2 ?c "Some 3" "[]" "[]" True "[]"]
  have h: "distinct (map fst [(''b'', 2), (''a'', 2), (''c'', 5), (''d'', 1::int)])" by simp
  have h': "distinct (map fst (type_freq_dict ?c))" by simp
  have same: "type_freq_dict ?c2 = type_freq_dict ?c \<and> unknown_token ?c2 = unknown_token ?c"
    by (simp add: init_corpus_def)
  have none: "unknown_token ?c = None" by (simp add: init_corpus_def)
  have r: "fst (create_vocab ?c (Some 3) [] [] True) = Inr []"
    and l: "vocab_list (snd (create_vocab ?c (Some 3) [] [] True)) = Some [''<UNK>'', ''c'', ''a'']"
    and k: "unknown_token (snd (create_vocab ?c (Some 3) [] [] True)) = Some ''<UNK>''"
    by (simp_all add: create_vocab_def init_corpus_def set_unknown_token_def
        add_token_to_vocab_def sorted_tokens_def counter_get_def Let_def)
  from t same have l2: "vocab_list (snd (create_vocab ?c2 (Some 3) [] [] True)) =
      vocab_list (snd (create_vocab ?c (Some 3) [] [] True))"
    by blast
  from t have rep: "create_vocab (snd (create_vocab ?c (Some 3) [] [] True)) (Some 3) [] [] True =
      create_vocab ?c (Some 3) [] [] True"
    by blast
  from t h' r obtain pre fill where
    pf: "vocab_list (snd (create_vocab ?c (Some 3) [] [] True)) = Some (pre @ fill)"
      "set fill \<subseteq> set (map fst (type_freq_dict ?c)) - set [] - set [] -
         (if True then set_option (unknown_token (snd (create_vocab ?c (Some 3) [] [] True))) else {})"
      "sorted_wrt (ranks_before (type_freq_dict ?c)) fill"
    by blast
  from pf(2) k have "''<UNK>'' \<notin> set fill" by auto
  with pf(1,3) l have ex: "\<exists>pre fill. [''<UNK>'', ''c'', ''a''] = pre @ fill \<and>
      sorted_wrt (ranks_before [(''b'', 2), (''a'', 2), (''c'', 5), (''d'', 1)]) fill \<and>
      ''<UNK>'' \<notin> set fill"
    by auto
  from h r l l2 rep ex show ?thesis by (simp only: simp_thms)
qed

text \<open>
  C6 as stated fails on both counts. A corpus with the document \<open>a\<close> is built, a
  document with three tokens \<open><UNK>\<close> is added, and the vocabulary is rebuilt with
  target size 3: the kept unknown token \<open><UNK>\<close> is now the most frequent type, the
  fill passes it over, and the vocabulary has 2 entries although two tokens remain and
  the target is 3. The same documents without the earlier build have the same frequency
  table, and the same call builds another ordering.
\<close>

theorem create_vocab_fill_order_counterexample:
  "type_freq_dict (add_document
       (snd (create_vocab (add_document init_corpus [[''a'']] None) None [] [] True))
       [[''<UNK>'', ''<UNK>'', ''<UNK>'']] None) = [(''a'', 1), (''<UNK>'', 3)] \<and>
   type_freq_dict (add_document (add_document init_corpus [[''a'']] None)
       [[''<UNK>'', ''<UNK>'', ''<UNK>'']] None) = [(''a'', 1), (''<UNK>'', 3)] \<and>
   vocab_list (snd (create_vocab
       (add_document
          (snd (create_vocab (add_document init_corpus [[''a'']] None) None [] [] True))
          [[''<UNK>'', ''<UNK>'', ''<UNK>'']] None)
       (Some 3) [] [] True)) = Some [''<UNK>'', ''a''] \<and>
   vocab_list (snd (create_vocab
       (add_document (add_document init_corpus [[''a'']] None)
          [[''<UNK>'', ''<UNK>'', ''<UNK>'']] None)
       (Some 3) [] [] True)) = Some [''<<UNK>>'', ''<UNK>'', ''a'']"
  by (simp add: create_vocab_def add_document_def Document_def counter_iadd_def counter_get_def
      init_corpus_def set_unknown_token_def add_token_to_vocab_def sorted_tokens_def Let_def
      less_eq_char_def less_char_def)

end
